theory Spec2Isabelle
  imports Main
begin

section \<open>Strings and arrays\<close>

text \<open>
  A string of the program is a sequence of UTF-16 code units; a code unit is modelled by
  its number. All markers of the patch language are ASCII, so \<open>ascii\<close> turns an
  Isabelle literal into such a string.
\<close>

type_synonym ustring = "nat list"

definition ascii :: "string \<Rightarrow> ustring" where
  "ascii s = map of_char s"

definition ADD_FILE_PREFIX :: ustring where
  "ADD_FILE_PREFIX = ascii ''*** Add File: ''"

definition DELETE_FILE_PREFIX :: ustring where
  "DELETE_FILE_PREFIX = ascii ''*** Delete File: ''"

definition UPDATE_FILE_PREFIX :: ustring where
  "UPDATE_FILE_PREFIX = ascii ''*** Update File: ''"

definition MOVE_FILE_TO_PREFIX :: ustring where
  "MOVE_FILE_TO_PREFIX = ascii ''*** Move File to: ''"

definition PATCH_PREFIX :: ustring where
  "PATCH_PREFIX = ascii ''*** Begin Patch'' @ [10]"

definition PATCH_SUFFIX :: ustring where
  "PATCH_SUFFIX = ascii ''*** End Patch''"

definition END_OF_FILE_PREFIX :: ustring where
  "END_OF_FILE_PREFIX = ascii ''*** EOF''"

definition HUNK_ADD_LINE_PREFIX :: ustring where
  "HUNK_ADD_LINE_PREFIX = ascii ''+''"

text \<open>
  The characters removed by \<open>trim\<close>, \<open>trimStart\<close> and \<open>trimEnd\<close>: the white space and
  line terminator code points of the language standard.
\<close>

definition is_space :: "nat \<Rightarrow> bool" where
  "is_space c \<longleftrightarrow>
     c = 9 \<or> c = 10 \<or> c = 11 \<or> c = 12 \<or> c = 13 \<or> c = 32 \<or> c = 160 \<or> c = 5760 \<or>
     (8192 \<le> c \<and> c \<le> 8202) \<or> c = 8232 \<or> c = 8233 \<or> c = 8239 \<or> c = 8287 \<or>
     c = 12288 \<or> c = 65279"

definition trimStart :: "ustring \<Rightarrow> ustring" where
  "trimStart s = dropWhile is_space s"

definition trimEnd :: "ustring \<Rightarrow> ustring" where
  "trimEnd s = rev (dropWhile is_space (rev s))"

definition trim :: "ustring \<Rightarrow> ustring" where
  "trim s = trimEnd (trimStart s)"

definition startsWith :: "ustring \<Rightarrow> ustring \<Rightarrow> bool" where
  "startsWith s p \<longleftrightarrow> take (length p) s = p"

text \<open>\<open>s.split("\n")\<close>: the result is never empty.\<close>

fun split_nl :: "ustring \<Rightarrow> ustring list" where
  "split_nl [] = [[]]"
| "split_nl (c # cs) =
     (if c = 10 then [] # split_nl cs
      else (case split_nl cs of [] \<Rightarrow> [[c]] | l # ls \<Rightarrow> (c # l) # ls))"

text \<open>\<open>xs.join("\n")\<close>.\<close>

fun join_nl :: "ustring list \<Rightarrow> ustring" where
  "join_nl [] = []"
| "join_nl [l] = l"
| "join_nl (l # m # ls) = l @ 10 # join_nl (m # ls)"

text \<open>
  \<open>xs.slice(a, b)\<close>: a negative bound counts from the end, both bounds are
  clamped to the array, and an empty range gives the empty array.
\<close>

definition slice :: "'a list \<Rightarrow> int \<Rightarrow> int \<Rightarrow> 'a list" where
  "slice xs a b =
     (let n = int (length xs);
          from = (if a < 0 then max (n + a) 0 else min a n);
          to = (if b < 0 then max (n + b) 0 else min b n)
      in take (nat (to - from)) (drop (nat from) xs))"

section \<open>Canonicalizer\<close>

definition PUNCT_EQUIV :: "nat \<rightharpoonup> nat" where
  "PUNCT_EQUIV =
     [0x2D \<mapsto> 0x2D, 0x2010 \<mapsto> 0x2D, 0x2011 \<mapsto> 0x2D, 0x2012 \<mapsto> 0x2D,
      0x2013 \<mapsto> 0x2D, 0x2014 \<mapsto> 0x2D, 0x2212 \<mapsto> 0x2D,
      0x22 \<mapsto> 0x22, 0x201C \<mapsto> 0x22, 0x201D \<mapsto> 0x22, 0x201E \<mapsto> 0x22,
      0xAB \<mapsto> 0x22, 0xBB \<mapsto> 0x22,
      0x27 \<mapsto> 0x27, 0x2018 \<mapsto> 0x27, 0x2019 \<mapsto> 0x27, 0x201B \<mapsto> 0x27,
      0xA0 \<mapsto> 0x20, 0x202F \<mapsto> 0x20]"

text \<open>The callback of the replacement: \<open>PUNCT_EQUIV[c] ?? c\<close>.\<close>

definition punct :: "nat \<Rightarrow> nat" where
  "punct c = (case PUNCT_EQUIV c of Some d \<Rightarrow> d | None \<Rightarrow> c)"

text \<open>
  \<open>canon\<close> normalises to Unicode NFC and then replaces every character by its entry of
  the table. Normalisation is a function of the platform, not of this program, and is a
  parameter \<open>nfc\<close> of the model. The replacement visits code points; every key of the
  table is a single code unit outside the surrogate range, so it acts on the code units
  one by one.
\<close>

definition canon :: "(ustring \<Rightarrow> ustring) \<Rightarrow> ustring \<Rightarrow> ustring" where
  "canon nfc s = map punct (nfc s)"

section \<open>Context Matcher\<close>

text \<open>
  The loop \<open>for (let i = start; i < lines.length; i++) if (...) return [i, fuzz]\<close>,
  with the test as a predicate on the index: the first index that passes it.
\<close>

function first_index :: "(int \<Rightarrow> bool) \<Rightarrow> int \<Rightarrow> int \<Rightarrow> int option" where
  "first_index P i n =
     (if i < n then (if P i then Some i else first_index P (i + 1) n) else None)"
  by pat_completeness auto
termination
  by (relation "measure (\<lambda>(P, i, n). nat (n - i))") auto

declare first_index.simps [simp del]

definition find_context_core ::
  "(ustring \<Rightarrow> ustring) \<Rightarrow> ustring list \<Rightarrow> ustring list \<Rightarrow> int \<Rightarrow> int \<times> int" where
  "find_context_core nfc lines context start =
     (if length context = 0 then (start, 0)
      else
        let n = int (length lines);
            k = int (length context);
            canonicalContext = canon nfc (join_nl context)
        in
          case first_index
                 (\<lambda>i. canon nfc (join_nl (slice lines i (i + k))) = canonicalContext)
                 start n of
            Some i \<Rightarrow> (i, 0)
          | None \<Rightarrow>
          (case first_index
                  (\<lambda>i. canon nfc (join_nl (map trimEnd (slice lines i (i + k)))) =
                         canon nfc (join_nl (map trimEnd context)))
                  start n of
             Some i \<Rightarrow> (i, 1)
           | None \<Rightarrow>
           (case first_index
                   (\<lambda>i. canon nfc (join_nl (map trim (slice lines i (i + k)))) =
                          canon nfc (join_nl (map trim context)))
                   start n of
              Some i \<Rightarrow> (i, 100)
            | None \<Rightarrow> (- 1, 0))))"

definition find_context ::
  "(ustring \<Rightarrow> ustring) \<Rightarrow> ustring list \<Rightarrow> ustring list \<Rightarrow> int \<Rightarrow> bool \<Rightarrow> int \<times> int" where
  "find_context nfc lines context start eof =
     (if eof then
        (case find_context_core nfc lines context
                (int (length lines) - int (length context)) of
           (newIndex, fuzz) \<Rightarrow>
             if newIndex \<noteq> - 1 then (newIndex, fuzz)
             else (case find_context_core nfc lines context start of
                     (newIndex', fuzz') \<Rightarrow> (newIndex', fuzz' + 10000)))
      else find_context_core nfc lines context start)"

subsection \<open>The three tiers, in the words of the specification\<close>

text \<open>
  A window of the file at index \<open>i\<close> matches the context exactly when the two are equal
  after joining and canonicalizing; it matches at the second tier when that holds after
  stripping trailing white space from every line, and at the third tier after stripping
  leading and trailing white space.
\<close>

definition exact_match ::
  "(ustring \<Rightarrow> ustring) \<Rightarrow> ustring list \<Rightarrow> ustring list \<Rightarrow> int \<Rightarrow> bool" where
  "exact_match nfc lines context i \<longleftrightarrow>
     canon nfc (join_nl (slice lines i (i + int (length context)))) =
     canon nfc (join_nl context)"

definition rstrip_match ::
  "(ustring \<Rightarrow> ustring) \<Rightarrow> ustring list \<Rightarrow> ustring list \<Rightarrow> int \<Rightarrow> bool" where
  "rstrip_match nfc lines context i \<longleftrightarrow>
     canon nfc (join_nl (map trimEnd (slice lines i (i + int (length context))))) =
     canon nfc (join_nl (map trimEnd context))"

definition strip_match ::
  "(ustring \<Rightarrow> ustring) \<Rightarrow> ustring list \<Rightarrow> ustring list \<Rightarrow> int \<Rightarrow> bool" where
  "strip_match nfc lines context i \<longleftrightarrow>
     canon nfc (join_nl (map trim (slice lines i (i + int (length context))))) =
     canon nfc (join_nl (map trim context))"

text \<open>\<open>i\<close> is the first index of the range from \<open>a\<close> up to, not including, \<open>b\<close> with \<open>P\<close>.\<close>

definition first_match :: "(int \<Rightarrow> bool) \<Rightarrow> int \<Rightarrow> int \<Rightarrow> int \<Rightarrow> bool" where
  "first_match P a b i \<longleftrightarrow> a \<le> i \<and> i < b \<and> P i \<and> (\<forall>j. a \<le> j \<and> j < i \<longrightarrow> \<not> P j)"

definition no_match :: "(int \<Rightarrow> bool) \<Rightarrow> int \<Rightarrow> int \<Rightarrow> bool" where
  "no_match P a b \<longleftrightarrow> (\<forall>j. a \<le> j \<and> j < b \<longrightarrow> \<not> P j)"

text \<open>
  The classes of equivalent punctuation and space characters that the specification
  names: the hyphen and dash variants, the double-quote variants, the single-quote
  variants, and the space with its non-breaking and narrow variants.
\<close>

definition PUNCT_CLASSES :: "nat list list" where
  "PUNCT_CLASSES =
     [[0x2D, 0x2010, 0x2011, 0x2012, 0x2013, 0x2014, 0x2212],
      [0x22, 0x201C, 0x201D, 0x201E, 0xAB, 0xBB],
      [0x27, 0x2018, 0x2019, 0x201B],
      [0x20, 0xA0, 0x202F]]"

text \<open>
  Two strings differ only by punctuation-equivalent variants when they have the same
  length and, position by position, the characters are equal or belong to one class.
\<close>

definition punct_equivalent :: "ustring \<Rightarrow> ustring \<Rightarrow> bool" where
  "punct_equivalent s t \<longleftrightarrow>
     list_all2 (\<lambda>a b. a = b \<or> list_ex (\<lambda>cl. a \<in> set cl \<and> b \<in> set cl) PUNCT_CLASSES) s t"

section \<open>Data model\<close>

datatype ActionType = ADD | DELETE | UPDATE

record Chunk =
  orig_index :: int
  del_lines :: "ustring list"
  ins_lines :: "ustring list"

record PatchAction =
  type :: ActionType
  new_file :: "ustring option"
  chunks :: "Chunk list"
  move_path :: "ustring option"

record FileChange =
  change_type :: ActionType
  old_content :: "ustring option"
  new_content :: "ustring option"
  change_move_path :: "ustring option"

text \<open>
  An object used as a dictionary is modelled by its own properties: the original files
  as a map, and the actions of a patch and the changes of a commit, which are
  enumerated, as association lists in the order of insertion. Where the code looks a
  key up in a way that also finds inherited members, the model says so at that place.
\<close>

type_synonym Patch = "(ustring \<times> PatchAction) list"

type_synonym Commit = "(ustring \<times> FileChange) list"

text \<open>
  The errors of the program, one constructor for each message. All are \<open>DiffError\<close>s
  but \<open>ExpectedUpdateAction\<close> (a plain \<open>Error\<close>), \<open>TypeError\<close> (a method called on
  \<open>undefined\<close>) and \<open>Thrown\<close> (whatever an injected function throws).
\<close>

datatype envelope_reason =
    AtLeastTwoLines   \<comment> \<open>Patch text must have at least two lines.\<close>
  | CorrectPrefix     \<comment> \<open>Patch text must start with the correct patch prefix.\<close>
  | CorrectSuffix     \<comment> \<open>Patch text must end with the correct patch suffix.\<close>

datatype error =
    IndexPastEnd nat nat                 \<comment> \<open>Index: i >= n\<close>
  | UpdateDuplicatePath ustring           \<comment> \<open>Update File Error: Duplicate Path: p\<close>
  | UpdateMissingFile ustring             \<comment> \<open>Update File Error: Missing File: p\<close>
  | DeleteDuplicatePath ustring           \<comment> \<open>Delete File Error: Duplicate Path: p\<close>
  | DeleteMissingFile ustring             \<comment> \<open>Delete File Error: Missing File: p\<close>
  | AddDuplicatePath ustring              \<comment> \<open>Add File Error: Duplicate Path: p\<close>
  | AddFileExists ustring                 \<comment> \<open>Add File Error: File already exists: p\<close>
  | UnknownLine "ustring option"          \<comment> \<open>Unknown Line: s\<close>
  | MissingEndPatch                       \<comment> \<open>Missing End Patch\<close>
  | InvalidLine "ustring option"          \<comment> \<open>Invalid Line:, then s on its own line\<close>
  | InvalidSectionLine ustring            \<comment> \<open>Invalid Line: s\<close>
  | InvalidEOFContext int ustring         \<comment> \<open>Invalid EOF Context i:, then the context\<close>
  | InvalidContext int ustring            \<comment> \<open>Invalid Context i:, then the context\<close>
  | InvalidAddFileLine ustring            \<comment> \<open>Invalid Add File Line: s\<close>
  | InvalidPatchText envelope_reason      \<comment> \<open>Invalid patch text: reason\<close>
  | ChunkIndexPastEnd ustring int nat     \<comment> \<open>p: chunk.orig_index i > len(lines) n\<close>
  | ChunkBeforeCursor ustring int int     \<comment> \<open>p: orig_index i > chunk.orig_index j\<close>
  | PatchMustStart                        \<comment> \<open>Patch must start with *** Begin Patch\n\<close>
  | FileNotFound ustring                  \<comment> \<open>File not found: p\<close>
  | ExpectedUpdateAction
  | TypeError
  | Thrown ustring

section \<open>Chunk Builder\<close>

datatype mode = Keep | Add | Delete

record section_state =
  old :: "ustring list"
  delLines :: "ustring list"
  insLines :: "ustring list"
  sec_chunks :: "Chunk list"
  sec_mode :: mode

text \<open>The two tests of \<open>peek_next_section\<close> that leave its loop without consuming the line.\<close>

definition section_break :: "ustring \<Rightarrow> bool" where
  "section_break s \<longleftrightarrow>
     list_ex (\<lambda>p. startsWith s (trim p))
       [ascii ''@@'', PATCH_SUFFIX, UPDATE_FILE_PREFIX, DELETE_FILE_PREFIX, ADD_FILE_PREFIX,
        END_OF_FILE_PREFIX]
     \<or> s = ascii ''***''"

text \<open>The chunk that closes off the pending deletions and insertions.\<close>

definition pending_chunk :: "section_state \<Rightarrow> Chunk" where
  "pending_chunk st =
     \<lparr>orig_index = int (length (old st)) - int (length (delLines st)),
      del_lines = delLines st, ins_lines = insLines st\<rparr>"

text \<open>The body of the loop for a line \<open>s\<close> that is consumed.\<close>

definition section_line :: "ustring \<Rightarrow> section_state \<Rightarrow> section_state" where
  "section_line s st =
     (let lastMode = sec_mode st;
          mode = (if take 1 s = HUNK_ADD_LINE_PREFIX then Add
                  else if take 1 s = ascii ''-'' then Delete
                  else Keep);
          line = (if take 1 s = HUNK_ADD_LINE_PREFIX \<or> take 1 s = ascii ''-'' \<or>
                     take 1 s = ascii '' '' then s
                  else ascii '' '' @ s);
          line = drop 1 line;
          st = (if mode = Keep \<and> lastMode \<noteq> mode then
                  st\<lparr>sec_chunks :=
                       (if insLines st \<noteq> [] \<or> delLines st \<noteq> []
                        then sec_chunks st @ [pending_chunk st] else sec_chunks st),
                     delLines := [], insLines := []\<rparr>
                else st);
          st = st\<lparr>sec_mode := mode\<rparr>
      in if mode = Delete then st\<lparr>delLines := delLines st @ [line], old := old st @ [line]\<rparr>
         else if mode = Add then st\<lparr>insLines := insLines st @ [line]\<rparr>
         else st\<lparr>old := old st @ [line]\<rparr>)"

function peek_loop ::
  "ustring list \<Rightarrow> nat \<Rightarrow> section_state \<Rightarrow> error + (nat \<times> section_state)" where
  "peek_loop lines index st =
     (if index < length lines then
        (if section_break (lines ! index) then Inr (index, st)
         else if startsWith (lines ! index) (ascii ''***'') then
           Inl (InvalidSectionLine (lines ! index))
         else peek_loop lines (index + 1) (section_line (lines ! index) st))
      else Inr (index, st))"
  by pat_completeness auto
termination
  by (relation "measure (\<lambda>(lines, index, st). length lines - index)") auto

declare peek_loop.simps [simp del]

definition peek_next_section ::
  "ustring list \<Rightarrow> nat \<Rightarrow> error + (ustring list \<times> Chunk list \<times> nat \<times> bool)" where
  "peek_next_section lines initialIndex =
     (case peek_loop lines initialIndex
             \<lparr>old = [], delLines = [], insLines = [], sec_chunks = [], sec_mode = Keep\<rparr> of
        Inl e \<Rightarrow> Inl e
      | Inr (index, st) \<Rightarrow>
          let chs = (if insLines st \<noteq> [] \<or> delLines st \<noteq> []
                     then sec_chunks st @ [pending_chunk st] else sec_chunks st)
          in if index < length lines \<and> lines ! index = END_OF_FILE_PREFIX
             then Inr (old st, chs, index + 1, True)
             else Inr (old st, chs, index, False))"

section \<open>Directive Parser\<close>

definition is_done :: "ustring list \<Rightarrow> nat \<Rightarrow> ustring list \<Rightarrow> bool" where
  "is_done lines index prefixes \<longleftrightarrow>
     index \<ge> length lines \<or> list_ex (\<lambda>p. startsWith (lines ! index) (trim p)) prefixes"

text \<open>
  \<open>read_str\<close> returns the text after the prefix and advances the cursor when the current
  line starts with the prefix, and returns the empty string without advancing otherwise.
\<close>

definition read_str :: "ustring list \<Rightarrow> nat \<Rightarrow> ustring \<Rightarrow> error + (ustring \<times> nat)" where
  "read_str lines index prefix =
     (if index \<ge> length lines then Inl (IndexPastEnd index (length lines))
      else if startsWith (lines ! index) prefix
      then Inr (drop (length prefix) (lines ! index), index + 1)
      else Inr ([], index))"

text \<open>\<open>this.lines[this.index]\<close>, which is \<open>undefined\<close> past the end.\<close>

definition line_at :: "ustring list \<Rightarrow> nat \<Rightarrow> ustring option" where
  "line_at lines index = (if index < length lines then Some (lines ! index) else None)"

text \<open>
  One iteration of the loop of \<open>parse_update_file\<close>: the section marker, the next
  section, its place in the file and the chunks moved to that place. The state is the
  cursor of the parser, the running position \<open>index\<close> in the file, the chunks of the
  action and the fuzz of the parser.
\<close>

definition update_step ::
  "(ustring \<Rightarrow> ustring) \<Rightarrow> ustring list \<Rightarrow> ustring list \<Rightarrow> nat \<Rightarrow> int \<Rightarrow> Chunk list \<Rightarrow> int \<Rightarrow>
   error + (nat \<times> int \<times> Chunk list \<times> int)" where
  "update_step nfc lines fileLines pindex index acc fuzz =
     (case read_str lines pindex (ascii ''@@ '') of
        Inl e \<Rightarrow> Inl e
      | Inr (defStr, p1) \<Rightarrow>
          let sectionStr = (if defStr = [] \<and> line_at lines p1 = Some (ascii ''@@'')
                            then ascii ''@@'' else []);
              p2 = (if defStr = [] \<and> line_at lines p1 = Some (ascii ''@@'')
                    then p1 + 1 else p1)
          in if \<not> (defStr \<noteq> [] \<or> sectionStr \<noteq> [] \<or> index = 0)
             then Inl (InvalidLine (line_at lines p2))
             else
               (case peek_next_section lines p2 of
                  Inl e \<Rightarrow> Inl e
                | Inr (nextChunkContext, chs, endPatchIndex, eof) \<Rightarrow>
                    (case find_context nfc fileLines nextChunkContext index eof of
                       (newIndex, fz) \<Rightarrow>
                         if newIndex = - 1 then
                           Inl (if eof
                                then InvalidEOFContext index (join_nl nextChunkContext)
                                else InvalidContext index (join_nl nextChunkContext))
                         else
                           Inr (endPatchIndex,
                                newIndex + int (length nextChunkContext),
                                acc @ map (\<lambda>ch. ch\<lparr>orig_index := orig_index ch + newIndex\<rparr>)
                                        chs,
                                fuzz + fz))))"

text \<open>
  The loop itself. Nothing bounds the number of its iterations, so the result is an
  option and \<open>None\<close> stands for a loop that never returns.
\<close>

partial_function (option) update_loop ::
  "(ustring \<Rightarrow> ustring) \<Rightarrow> ustring list \<Rightarrow> ustring list \<Rightarrow> nat \<Rightarrow> int \<Rightarrow> Chunk list \<Rightarrow> int \<Rightarrow>
   (error + (Chunk list \<times> nat \<times> int)) option" where
  "update_loop nfc lines fileLines pindex index acc fuzz =
     (if is_done lines pindex
           [PATCH_SUFFIX, UPDATE_FILE_PREFIX, DELETE_FILE_PREFIX, ADD_FILE_PREFIX,
            END_OF_FILE_PREFIX]
      then Some (Inr (acc, pindex, fuzz))
      else
        case update_step nfc lines fileLines pindex index acc fuzz of
          Inl e \<Rightarrow> Some (Inl e)
        | Inr (pindex', index', acc', fuzz') \<Rightarrow>
            update_loop nfc lines fileLines pindex' index' acc' fuzz')"

definition parse_update_file ::
  "(ustring \<Rightarrow> ustring) \<Rightarrow> ustring list \<Rightarrow> nat \<Rightarrow> int \<Rightarrow> ustring \<Rightarrow>
   (error + (PatchAction \<times> nat \<times> int)) option" where
  "parse_update_file nfc lines pindex fuzz text =
     (case update_loop nfc lines (split_nl text) pindex 0 [] fuzz of
        None \<Rightarrow> None
      | Some (Inl e) \<Rightarrow> Some (Inl e)
      | Some (Inr (acc, pindex', fuzz')) \<Rightarrow>
          Some (Inr (\<lparr>type = UPDATE, new_file = None, chunks = acc, move_path = None\<rparr>,
                     pindex', fuzz')))"

function add_loop :: "ustring list \<Rightarrow> nat \<Rightarrow> ustring list \<Rightarrow> error + (ustring list \<times> nat)" where
  "add_loop lines pindex acc =
     (if is_done lines pindex
           [PATCH_SUFFIX, UPDATE_FILE_PREFIX, DELETE_FILE_PREFIX, ADD_FILE_PREFIX]
      then Inr (acc, pindex)
      else
        (case read_str lines pindex [] of
           Inl e \<Rightarrow> Inl e
         | Inr (s, p1) \<Rightarrow>
             if \<not> startsWith s HUNK_ADD_LINE_PREFIX then Inl (InvalidAddFileLine s)
             else add_loop lines p1 (acc @ [drop 1 s])))"
  by pat_completeness auto
termination
  by (relation "measure (\<lambda>(lines, pindex, acc). length lines - pindex)")
    (auto simp: is_done_def read_str_def startsWith_def split: if_splits)

declare add_loop.simps [simp del]

definition parse_add_file :: "ustring list \<Rightarrow> nat \<Rightarrow> error + (PatchAction \<times> nat)" where
  "parse_add_file lines pindex =
     (case add_loop lines pindex [] of
        Inl e \<Rightarrow> Inl e
      | Inr (acc, pindex') \<Rightarrow>
          Inr (\<lparr>type = ADD, new_file = Some (join_nl acc), chunks = [], move_path = None\<rparr>,
               pindex'))"

text \<open>
  The patch and the original files are plain objects, which inherit the members of
  \<open>Object.prototype\<close>. The parser asks for a path with \<open>this.patch.actions[path]\<close>,
  taken as a truth value, and with \<open>path in this.current_files\<close>: both find an own
  property and both find an inherited member, every one of which is an object or a
  function and so counts as true.
\<close>

definition OBJECT_PROTOTYPE_KEYS :: "ustring list" where
  "OBJECT_PROTOTYPE_KEYS =
     map ascii
       [''constructor'', ''__defineGetter__'', ''__defineSetter__'', ''hasOwnProperty'',
        ''__lookupGetter__'', ''__lookupSetter__'', ''isPrototypeOf'',
        ''propertyIsEnumerable'', ''toString'', ''valueOf'', ''__proto__'',
        ''toLocaleString'']"

definition has_action :: "Patch \<Rightarrow> ustring \<Rightarrow> bool" where
  "has_action patch path \<longleftrightarrow> map_of patch path \<noteq> None \<or> path \<in> set OBJECT_PROTOTYPE_KEYS"

definition in_files :: "(ustring \<rightharpoonup> ustring) \<Rightarrow> ustring \<Rightarrow> bool" where
  "in_files current_files path \<longleftrightarrow>
     current_files path \<noteq> None \<or> path \<in> set OBJECT_PROTOTYPE_KEYS"

text \<open>
  One iteration of the loop of \<open>parse\<close>: an Update, Delete or Add header with what
  follows it. The state is the cursor, the patch and the fuzz of the parser. A path
  that is in the files only as an inherited member has no text, and splitting it into
  lines is a \<open>TypeError\<close>.
\<close>

definition parse_step ::
  "(ustring \<Rightarrow> ustring) \<Rightarrow> (ustring \<rightharpoonup> ustring) \<Rightarrow> ustring list \<Rightarrow> nat \<Rightarrow> Patch \<Rightarrow> int \<Rightarrow>
   (error + (nat \<times> Patch \<times> int)) option" where
  "parse_step nfc current_files lines index patch fuzz =
     (case read_str lines index UPDATE_FILE_PREFIX of
        Inl e \<Rightarrow> Some (Inl e)
      | Inr (path, i1) \<Rightarrow>
          if path \<noteq> [] then
            (if has_action patch path then Some (Inl (UpdateDuplicatePath path))
             else
               (case read_str lines i1 MOVE_FILE_TO_PREFIX of
                  Inl e \<Rightarrow> Some (Inl e)
                | Inr (moveTo, i2) \<Rightarrow>
                    if \<not> in_files current_files path
                    then Some (Inl (UpdateMissingFile path))
                    else
                      (case current_files path of
                         None \<Rightarrow> Some (Inl TypeError)
                       | Some text \<Rightarrow>
                           (case parse_update_file nfc lines i2 fuzz text of
                              None \<Rightarrow> None
                            | Some (Inl e) \<Rightarrow> Some (Inl e)
                            | Some (Inr (action, i3, fuzz')) \<Rightarrow>
                                Some (Inr (i3,
                                           patch @
                                           [(path, action\<lparr>move_path :=
                                                      (if moveTo = [] then None
                                                       else Some moveTo)\<rparr>)],
                                           fuzz'))))))
          else
            (case read_str lines i1 DELETE_FILE_PREFIX of
               Inl e \<Rightarrow> Some (Inl e)
             | Inr (path, i2) \<Rightarrow>
                 if path \<noteq> [] then
                   (if has_action patch path then Some (Inl (DeleteDuplicatePath path))
                    else if \<not> in_files current_files path
                    then Some (Inl (DeleteMissingFile path))
                    else
                      Some (Inr (i2,
                                 patch @
                                 [(path, \<lparr>type = DELETE, new_file = None, chunks = [],
                                          move_path = None\<rparr>)],
                                 fuzz)))
                 else
                   (case read_str lines i2 ADD_FILE_PREFIX of
                      Inl e \<Rightarrow> Some (Inl e)
                    | Inr (path, i3) \<Rightarrow>
                        if path \<noteq> [] then
                          (if has_action patch path
                           then Some (Inl (AddDuplicatePath path))
                           else if in_files current_files path
                           then Some (Inl (AddFileExists path))
                           else
                             (case parse_add_file lines i3 of
                                Inl e \<Rightarrow> Some (Inl e)
                              | Inr (action, i4) \<Rightarrow>
                                  Some (Inr (i4, patch @ [(path, action)], fuzz))))
                        else Some (Inl (UnknownLine (line_at lines i3))))))"

text \<open>The loop of \<open>parse\<close> with the test for the end marker that follows it.\<close>

partial_function (option) parse ::
  "(ustring \<Rightarrow> ustring) \<Rightarrow> (ustring \<rightharpoonup> ustring) \<Rightarrow> ustring list \<Rightarrow> nat \<Rightarrow> Patch \<Rightarrow> int \<Rightarrow>
   (error + (nat \<times> Patch \<times> int)) option" where
  "parse nfc current_files lines index patch fuzz =
     (if is_done lines index [PATCH_SUFFIX] then
        (case line_at lines index of
           None \<Rightarrow> Some (Inl TypeError)
         | Some s \<Rightarrow>
             if \<not> startsWith s (trim PATCH_SUFFIX) then Some (Inl MissingEndPatch)
             else Some (Inr (index + 1, patch, fuzz)))
      else
        case parse_step nfc current_files lines index patch fuzz of
          None \<Rightarrow> None
        | Some (Inl e) \<Rightarrow> Some (Inl e)
        | Some (Inr (index', patch', fuzz')) \<Rightarrow>
            parse nfc current_files lines index' patch' fuzz')"

definition text_to_patch ::
  "(ustring \<Rightarrow> ustring) \<Rightarrow> ustring \<Rightarrow> (ustring \<rightharpoonup> ustring) \<Rightarrow> (error + (Patch \<times> int)) option" where
  "text_to_patch nfc text orig =
     (let lines = split_nl (trim text) in
      if length lines < 2 \<or> \<not> startsWith (lines ! 0) (trim PATCH_PREFIX) \<or>
         lines ! (length lines - 1) \<noteq> trim PATCH_SUFFIX
      then
        Some (Inl (InvalidPatchText
          (if length lines < 2 then AtLeastTwoLines
           else if \<not> startsWith (lines ! 0) (trim PATCH_PREFIX) then CorrectPrefix
           else CorrectSuffix)))
      else
        case parse nfc orig lines 1 [] 0 of
          None \<Rightarrow> None
        | Some (Inl e) \<Rightarrow> Some (Inl e)
        | Some (Inr (index, patch, fuzz)) \<Rightarrow> Some (Inr (patch, fuzz)))"

section \<open>Commit Builder\<close>

text \<open>
  The loop of \<open>_get_updated_file\<close> over the chunks, with the output lines and the cursor
  \<open>origIndex\<close> as its state, followed by the copy of the remaining lines.
\<close>

fun apply_chunks ::
  "ustring \<Rightarrow> ustring list \<Rightarrow> Chunk list \<Rightarrow> ustring list \<Rightarrow> int \<Rightarrow> error + ustring list" where
  "apply_chunks path origLines [] destLines origIndex =
     Inr (destLines @ slice origLines origIndex (int (length origLines)))"
| "apply_chunks path origLines (chunk # rest) destLines origIndex =
     (if orig_index chunk > int (length origLines) then
        Inl (ChunkIndexPastEnd path (orig_index chunk) (length origLines))
      else if origIndex > orig_index chunk then
        Inl (ChunkBeforeCursor path origIndex (orig_index chunk))
      else
        apply_chunks path origLines rest
          (destLines @ slice origLines origIndex (orig_index chunk) @ ins_lines chunk)
          (origIndex + (orig_index chunk - origIndex) + int (length (del_lines chunk))))"

definition get_updated_file :: "ustring \<Rightarrow> PatchAction \<Rightarrow> ustring \<Rightarrow> error + ustring" where
  "get_updated_file text action path =
     (if type action \<noteq> UPDATE then Inl ExpectedUpdateAction
      else
        case apply_chunks path (split_nl text) (chunks action) [] 0 of
          Inl e \<Rightarrow> Inl e
        | Inr destLines \<Rightarrow> Inr (join_nl destLines))"

text \<open>
  The order in which the entries of an object are enumerated: the keys that are array
  indices (canonical decimal numerals below \<open>2^32 - 1\<close>) in ascending order, then the
  other keys in the order of insertion.
\<close>

definition digits_value :: "ustring \<Rightarrow> nat" where
  "digits_value k = foldl (\<lambda>v c. 10 * v + (c - 48)) 0 k"

definition is_array_index :: "ustring \<Rightarrow> bool" where
  "is_array_index k \<longleftrightarrow>
     k \<noteq> [] \<and> list_all (\<lambda>c. 48 \<le> c \<and> c \<le> 57) k \<and> (k = [48] \<or> take 1 k \<noteq> [48]) \<and>
     digits_value k < 4294967295"

definition object_entries :: "(ustring \<times> 'a) list \<Rightarrow> (ustring \<times> 'a) list" where
  "object_entries kvs =
     sort_key (\<lambda>kv. digits_value (fst kv)) (filter (\<lambda>kv. is_array_index (fst kv)) kvs) @
     filter (\<lambda>kv. \<not> is_array_index (fst kv)) kvs"

fun commit_entries ::
  "(ustring \<rightharpoonup> ustring) \<Rightarrow> (ustring \<times> PatchAction) list \<Rightarrow> Commit \<Rightarrow> error + Commit" where
  "commit_entries orig [] commit = Inr commit"
| "commit_entries orig ((pathKey, action) # rest) commit =
     (if type action = DELETE then
        commit_entries orig rest
          (commit @ [(pathKey, \<lparr>change_type = DELETE, old_content = orig pathKey,
                                new_content = None, change_move_path = None\<rparr>)])
      else if type action = ADD then
        commit_entries orig rest
          (commit @ [(pathKey, \<lparr>change_type = ADD, old_content = None,
                                new_content = Some (case new_file action of
                                                      Some t \<Rightarrow> t | None \<Rightarrow> []),
                                change_move_path = None\<rparr>)])
      else
        case orig pathKey of
          None \<Rightarrow> Inl TypeError
        | Some text \<Rightarrow>
            (case get_updated_file text action pathKey of
               Inl e \<Rightarrow> Inl e
             | Inr newContent \<Rightarrow>
                 commit_entries orig rest
                   (commit @ [(pathKey, \<lparr>change_type = UPDATE, old_content = orig pathKey,
                                         new_content = Some newContent,
                                         change_move_path = move_path action\<rparr>)])))"

definition patch_to_commit :: "Patch \<Rightarrow> (ustring \<rightharpoonup> ustring) \<Rightarrow> error + Commit" where
  "patch_to_commit patch orig = commit_entries orig (object_entries patch) []"

section \<open>Filesystem Applier\<close>

text \<open>
  The injected functions act on a state \<open>'w\<close> of the outside world: \<open>openFn\<close> returns
  the content of a file or throws (\<open>None\<close>), \<open>writeFn\<close> and \<open>removeFn\<close> return or
  throw (\<open>Some\<close> of the error); each also returns the state it leaves. In
  \<open>load_files\<close> the assignment \<open>orig[p] = ...\<close> of a string to the key \<open>__proto__\<close>
  creates no property.
\<close>

definition identify_files_needed :: "ustring \<Rightarrow> ustring list" where
  "identify_files_needed text =
     foldl (\<lambda>result line.
              let result = (if startsWith line UPDATE_FILE_PREFIX \<and>
                               drop (length UPDATE_FILE_PREFIX) line \<notin> set result
                            then result @ [drop (length UPDATE_FILE_PREFIX) line] else result)
              in if startsWith line DELETE_FILE_PREFIX \<and>
                    drop (length DELETE_FILE_PREFIX) line \<notin> set result
                 then result @ [drop (length DELETE_FILE_PREFIX) line] else result)
       [] (split_nl (trim text))"

definition identify_files_added :: "ustring \<Rightarrow> ustring list" where
  "identify_files_added text =
     foldl (\<lambda>result line.
              if startsWith line ADD_FILE_PREFIX \<and>
                 drop (length ADD_FILE_PREFIX) line \<notin> set result
              then result @ [drop (length ADD_FILE_PREFIX) line] else result)
       [] (split_nl (trim text))"

fun load_files ::
  "ustring list \<Rightarrow> (ustring \<Rightarrow> 'w \<Rightarrow> ustring option \<times> 'w) \<Rightarrow> (ustring \<rightharpoonup> ustring) \<Rightarrow> 'w \<Rightarrow>
   (error + (ustring \<rightharpoonup> ustring)) \<times> 'w" where
  "load_files [] openFn orig w = (Inr orig, w)"
| "load_files (p # paths) openFn orig w =
     (case openFn p w of
        (None, w') \<Rightarrow> (Inl (FileNotFound p), w')
      | (Some content, w') \<Rightarrow>
          load_files paths openFn
            (if p = ascii ''__proto__'' then orig else orig(p \<mapsto> content)) w')"

fun apply_entries ::
  "(ustring \<times> FileChange) list \<Rightarrow> (ustring \<Rightarrow> ustring \<Rightarrow> 'w \<Rightarrow> error option \<times> 'w) \<Rightarrow>
   (ustring \<Rightarrow> 'w \<Rightarrow> error option \<times> 'w) \<Rightarrow> 'w \<Rightarrow> error option \<times> 'w" where
  "apply_entries [] writeFn removeFn w = (None, w)"
| "apply_entries ((p, change) # rest) writeFn removeFn w =
     (let content = (case new_content change of Some c \<Rightarrow> c | None \<Rightarrow> []) in
      if change_type change = DELETE then
        (case removeFn p w of
           (Some e, w') \<Rightarrow> (Some e, w')
         | (None, w') \<Rightarrow> apply_entries rest writeFn removeFn w')
      else if change_type change = ADD then
        (case writeFn p content w of
           (Some e, w') \<Rightarrow> (Some e, w')
         | (None, w') \<Rightarrow> apply_entries rest writeFn removeFn w')
      else if change_move_path change \<noteq> None \<and> change_move_path change \<noteq> Some [] then
        (case writeFn (the (change_move_path change)) content w of
           (Some e, w') \<Rightarrow> (Some e, w')
         | (None, w') \<Rightarrow>
             (case removeFn p w' of
                (Some e, w'') \<Rightarrow> (Some e, w'')
              | (None, w'') \<Rightarrow> apply_entries rest writeFn removeFn w''))
      else
        (case writeFn p content w of
           (Some e, w') \<Rightarrow> (Some e, w')
         | (None, w') \<Rightarrow> apply_entries rest writeFn removeFn w'))"

definition apply_commit ::
  "Commit \<Rightarrow> (ustring \<Rightarrow> ustring \<Rightarrow> 'w \<Rightarrow> error option \<times> 'w) \<Rightarrow>
   (ustring \<Rightarrow> 'w \<Rightarrow> error option \<times> 'w) \<Rightarrow> 'w \<Rightarrow> error option \<times> 'w" where
  "apply_commit commit writeFn removeFn w =
     apply_entries (object_entries commit) writeFn removeFn w"

definition process_patch ::
  "(ustring \<Rightarrow> ustring) \<Rightarrow> ustring \<Rightarrow> (ustring \<Rightarrow> 'w \<Rightarrow> ustring option \<times> 'w) \<Rightarrow>
   (ustring \<Rightarrow> ustring \<Rightarrow> 'w \<Rightarrow> error option \<times> 'w) \<Rightarrow>
   (ustring \<Rightarrow> 'w \<Rightarrow> error option \<times> 'w) \<Rightarrow> 'w \<Rightarrow> ((error + ustring) \<times> 'w) option" where
  "process_patch nfc text openFn writeFn removeFn w =
     (if \<not> startsWith text PATCH_PREFIX then Some (Inl PatchMustStart, w)
      else
        case load_files (identify_files_needed text) openFn Map.empty w of
          (Inl e, w1) \<Rightarrow> Some (Inl e, w1)
        | (Inr orig, w1) \<Rightarrow>
            (case text_to_patch nfc text orig of
               None \<Rightarrow> None
             | Some (Inl e) \<Rightarrow> Some (Inl e, w1)
             | Some (Inr (patch, fuzz)) \<Rightarrow>
                 (case patch_to_commit patch orig of
                    Inl e \<Rightarrow> Some (Inl e, w1)
                  | Inr commit \<Rightarrow>
                      (case apply_commit commit writeFn removeFn w1 of
                         (Some e, w2) \<Rightarrow> Some (Inl e, w2)
                       | (None, w2) \<Rightarrow> Some (Inr (ascii ''Done!''), w2)))))"

section \<open>The claims' notions, in the words of the specification\<close>

text \<open>
  The chunks are in order from a cursor: no chunk starts beyond the line count, and
  none starts before the cursor, which is the given one for the first chunk and
  \<open>orig_index\<close> plus the number of deleted lines of the chunk before for every other.
\<close>

fun chunks_in_order :: "int \<Rightarrow> nat \<Rightarrow> Chunk list \<Rightarrow> bool" where
  "chunks_in_order cursor n [] \<longleftrightarrow> True"
| "chunks_in_order cursor n (c # cs) \<longleftrightarrow>
     orig_index c \<le> int n \<and> cursor \<le> orig_index c \<and>
     chunks_in_order (orig_index c + int (length (del_lines c))) n cs"

text \<open>
  The text the specification asks for: for each chunk in order the original lines
  between the cursor and \<open>orig_index\<close>, then the inserted lines, the cursor moving past
  the deleted lines; after the last chunk the remaining original lines.
\<close>

fun rebuilt :: "ustring list \<Rightarrow> int \<Rightarrow> Chunk list \<Rightarrow> ustring list" where
  "rebuilt origLines cursor [] = drop (nat cursor) origLines"
| "rebuilt origLines cursor (c # cs) =
     take (nat (orig_index c - cursor)) (drop (nat cursor) origLines) @ ins_lines c @
     rebuilt origLines (orig_index c + int (length (del_lines c))) cs"

text \<open>
  Chunks ordered by non-decreasing \<open>orig_index\<close>, every later chunk starting at or after
  the lines consumed by every earlier one.
\<close>

definition chunks_monotone :: "Chunk list \<Rightarrow> bool" where
  "chunks_monotone cs \<longleftrightarrow>
     sorted_wrt (\<lambda>c d. orig_index c \<le> orig_index d \<and>
                       orig_index c + int (length (del_lines c)) \<le> orig_index d) cs"

subsection \<open>Notions about the runs of the parser\<close>

text \<open>
  What holds of the state of \<open>peek_next_section\<close> between two lines: the chunks closed
  so far are in order and end at or before the place where the pending one would start.
\<close>

definition section_inv :: "section_state \<Rightarrow> bool" where
  "section_inv st \<longleftrightarrow>
     length (delLines st) \<le> length (old st) \<and> chunks_monotone (sec_chunks st) \<and>
     list_all (\<lambda>c. 0 \<le> orig_index c \<and>
                    orig_index c + int (length (del_lines c)) \<le>
                    int (length (old st)) - int (length (delLines st)))
       (sec_chunks st)"

text \<open>
  What holds of the state of \<open>parse_update_file\<close> between two hunks as long as no
  hunk anchored at the end of the file was found before the running position: the chunks
  are in order and end at or before the running position.
\<close>

definition update_inv :: "int \<Rightarrow> Chunk list \<Rightarrow> bool" where
  "update_inv index acc \<longleftrightarrow>
     chunks_monotone acc \<and>
     list_all (\<lambda>c. orig_index c + int (length (del_lines c)) \<le> index) acc"

text \<open>
  The line at which \<open>update_step\<close> reads its section: the line after the section
  marker when there is one.
\<close>

definition section_start :: "ustring list \<Rightarrow> nat \<Rightarrow> nat" where
  "section_start lines pindex =
     (case read_str lines pindex (ascii ''@@ '') of
        Inl e \<Rightarrow> pindex
      | Inr (defStr, p1) \<Rightarrow>
          if defStr = [] \<and> line_at lines p1 = Some (ascii ''@@'') then p1 + 1 else p1)"

text \<open>
  Among the first \<open>n\<close> hunks that \<open>parse_update_file\<close> reads from the cursor \<open>pindex\<close>
  and the running position \<open>index\<close>, no hunk anchored at the end of the file is found
  before the running position it is searched from.
\<close>

fun eof_hunks_in_place ::
  "nat \<Rightarrow> (ustring \<Rightarrow> ustring) \<Rightarrow> ustring list \<Rightarrow> ustring list \<Rightarrow> nat \<Rightarrow> int \<Rightarrow> bool" where
  "eof_hunks_in_place 0 nfc lines fileLines pindex index \<longleftrightarrow> True"
| "eof_hunks_in_place (Suc n) nfc lines fileLines pindex index \<longleftrightarrow>
     (if is_done lines pindex
           [PATCH_SUFFIX, UPDATE_FILE_PREFIX, DELETE_FILE_PREFIX, ADD_FILE_PREFIX,
            END_OF_FILE_PREFIX]
      then True
      else
        (case peek_next_section lines (section_start lines pindex) of
           Inl e \<Rightarrow> True
         | Inr (ctx, chs, endPatchIndex, eof) \<Rightarrow>
             (case find_context nfc fileLines ctx index eof of
                (newIndex, fz) \<Rightarrow>
                  newIndex = - 1 \<or>
                  (\<not> (eof \<and> newIndex < index) \<and>
                   eof_hunks_in_place n nfc lines fileLines endPatchIndex
                     (newIndex + int (length ctx))))))"

text \<open>
  An entry of the patch that is an Update action is the action that
  \<open>parse_update_file\<close> reads at some cursor from the original text of its path, but
  for the \<open>move_path\<close> that the parser sets afterwards.
\<close>

definition entry_read ::
  "(ustring \<Rightarrow> ustring) \<Rightarrow> (ustring \<rightharpoonup> ustring) \<Rightarrow> ustring list \<Rightarrow> ustring \<times> PatchAction \<Rightarrow> bool" where
  "entry_read nfc current_files lines pa \<longleftrightarrow>
     (type (snd pa) = UPDATE \<longrightarrow>
        (\<exists>content pindex f p' f'.
           current_files (fst pa) = Some content \<and>
           parse_update_file nfc lines pindex f content =
           Some (Inr ((snd pa)\<lparr>move_path := None\<rparr>, p', f'))))"

section \<open>Properties of the replacement table\<close>

text \<open>
  What the table alone gives: replacing twice is replacing once, and two strings that
  differ only by punctuation-equivalent variants have the same replaced string. Nothing
  here speaks of the normalisation that \<open>canon\<close> applies before the replacement.
\<close>

lemma punct_idem: "punct (punct c) = punct c"
  by (simp add: punct_def PUNCT_EQUIV_def)

lemma map_punct_idem: "map punct (map punct s) = map punct s"
  by (simp add: punct_idem)

lemma punct_dash:
  "a \<in> set [0x2D, 0x2010, 0x2011, 0x2012, 0x2013, 0x2014, 0x2212] \<Longrightarrow> punct a = 0x2D"
  by (auto simp: punct_def PUNCT_EQUIV_def)

lemma punct_double_quote:
  "a \<in> set [0x22, 0x201C, 0x201D, 0x201E, 0xAB, 0xBB] \<Longrightarrow> punct a = 0x22"
  by (auto simp: punct_def PUNCT_EQUIV_def)

lemma punct_single_quote:
  "a \<in> set [0x27, 0x2018, 0x2019, 0x201B] \<Longrightarrow> punct a = 0x27"
  by (auto simp: punct_def PUNCT_EQUIV_def)

lemma punct_space:
  "a \<in> set [0x20, 0xA0, 0x202F] \<Longrightarrow> punct a = 0x20"
  by (auto simp: punct_def PUNCT_EQUIV_def)

lemma punct_class:
  assumes "list_ex (\<lambda>cl. a \<in> set cl \<and> b \<in> set cl) PUNCT_CLASSES"
  shows "punct a = punct b"
  using assms unfolding PUNCT_CLASSES_def list_ex_Cons_iff list_ex_Nil_iff
  by (elim disjE conjE FalseE)
    (simp_all only: punct_dash punct_double_quote punct_single_quote punct_space)

lemma punct_equivalent_map: "punct_equivalent s t \<Longrightarrow> map punct s = map punct t"
  unfolding punct_equivalent_def
  by (induction s t rule: list_all2_induct) (auto dest: punct_class)

lemma punct_equivalent_spaces:
  "punct_equivalent [0xA0] [0x20] \<and> punct_equivalent [0x202F] [0x20] \<and>
   punct_equivalent [0x2019] [0x27] \<and> punct_equivalent [0x201C] [0xBB]"
  by (simp add: punct_equivalent_def PUNCT_CLASSES_def)

section \<open>Properties of the Context Matcher\<close>

lemma first_index_Some: "first_index P a b = Some i \<longleftrightarrow> first_match P a b i"
proof (induction P a b rule: first_index.induct)
  case (1 P i' n)
  show ?case
  proof (cases "i' < n")
    case False
    then show ?thesis by (simp add: first_index.simps [of P i' n] first_match_def)
  next
    case lt: True
    show ?thesis
    proof (cases "P i'")
      case True
      have "first_match P i' n i \<longleftrightarrow> i = i'"
        using True lt unfolding first_match_def
        by (metis order_refl le_less not_less)
      then show ?thesis using True lt by (auto simp add: first_index.simps [of P i' n])
    next
      case False
      have "first_match P i' n i \<longleftrightarrow> first_match P (i' + 1) n i"
        using False unfolding first_match_def
        by (smt (verit))
      then show ?thesis using False lt 1 by (simp add: first_index.simps [of P i' n])
    qed
  qed
qed

lemma first_index_None: "first_index P a b = None \<longleftrightarrow> no_match P a b"
proof (induction P a b rule: first_index.induct)
  case (1 P i n)
  show ?case
  proof (cases "i < n")
    case False
    then show ?thesis by (auto simp add: first_index.simps [of P i n] no_match_def)
  next
    case lt: True
    show ?thesis
    proof (cases "P i")
      case True
      then show ?thesis using lt by (auto simp add: first_index.simps [of P i n] no_match_def)
    next
      case False
      have "no_match P i n \<longleftrightarrow> no_match P (i + 1) n"
        using False unfolding no_match_def
        by (smt (verit))
      then show ?thesis using False lt 1 by (simp add: first_index.simps [of P i n])
    qed
  qed
qed

lemma first_match_unique: "first_match P a b i \<Longrightarrow> first_match P a b j \<Longrightarrow> i = j"
  unfolding first_match_def by (meson not_less_iff_gr_or_eq)

lemma first_match_not_no_match: "first_match P a b i \<Longrightarrow> \<not> no_match P a b"
  unfolding first_match_def no_match_def by blast

lemma core_unfold:
  "context \<noteq> [] \<Longrightarrow> find_context_core nfc lines context start =
     (case first_index (exact_match nfc lines context) start (int (length lines)) of
        Some i \<Rightarrow> (i, 0)
      | None \<Rightarrow>
      (case first_index (rstrip_match nfc lines context) start (int (length lines)) of
         Some i \<Rightarrow> (i, 1)
       | None \<Rightarrow>
       (case first_index (strip_match nfc lines context) start (int (length lines)) of
          Some i \<Rightarrow> (i, 100)
        | None \<Rightarrow> (- 1, 0))))"
  unfolding find_context_core_def exact_match_def [abs_def] rstrip_match_def [abs_def]
    strip_match_def [abs_def] Let_def
  by simp

lemma core_exact:
  "context \<noteq> [] \<Longrightarrow> first_match (exact_match nfc lines context) start (int (length lines)) i
   \<Longrightarrow> find_context_core nfc lines context start = (i, 0)"
  by (simp add: core_unfold first_index_Some [symmetric])

lemma core_rstrip:
  "context \<noteq> [] \<Longrightarrow> no_match (exact_match nfc lines context) start (int (length lines))
   \<Longrightarrow> first_match (rstrip_match nfc lines context) start (int (length lines)) i
   \<Longrightarrow> find_context_core nfc lines context start = (i, 1)"
  by (simp add: core_unfold first_index_Some [symmetric] first_index_None [symmetric])

lemma core_strip:
  "context \<noteq> [] \<Longrightarrow> no_match (exact_match nfc lines context) start (int (length lines))
   \<Longrightarrow> no_match (rstrip_match nfc lines context) start (int (length lines))
   \<Longrightarrow> first_match (strip_match nfc lines context) start (int (length lines)) i
   \<Longrightarrow> find_context_core nfc lines context start = (i, 100)"
  by (simp add: core_unfold first_index_Some [symmetric] first_index_None [symmetric])

lemma core_none:
  "context \<noteq> [] \<Longrightarrow> no_match (exact_match nfc lines context) start (int (length lines))
   \<Longrightarrow> no_match (rstrip_match nfc lines context) start (int (length lines))
   \<Longrightarrow> no_match (strip_match nfc lines context) start (int (length lines))
   \<Longrightarrow> find_context_core nfc lines context start = (- 1, 0)"
  by (simp add: core_unfold first_index_None [symmetric])

lemma exists_first: "a \<le> j \<Longrightarrow> j < b \<Longrightarrow> P j \<Longrightarrow> \<exists>i. i \<le> j \<and> first_match P a b i"
proof -
  assume a: "a \<le> j" "j < b" "P j"
  have "first_index P a b \<noteq> None" using a by (auto simp: first_index_None no_match_def)
  then obtain i where i: "first_index P a b = Some i" by auto
  then have fm: "first_match P a b i" by (simp add: first_index_Some)
  then have "i \<le> j" using a unfolding first_match_def by (meson not_less)
  then show ?thesis using fm by blast
qed

lemma slice_window:
  assumes "0 \<le> j" and "take k (drop (nat j) xs) = ys" and "length ys = k"
  shows "slice xs j (j + int k) = ys"
proof -
  have "length (take k (drop (nat j) xs)) = k" using assms by simp
  then have "k \<le> length xs - nat j" by simp
  then have le: "k = 0 \<or> j + int k \<le> int (length xs)" using assms(1) by linarith
  show ?thesis
  proof (cases "k = 0")
    case True
    then show ?thesis using assms by (auto simp: slice_def Let_def)
  next
    case False
    then have "j + int k \<le> int (length xs)" using le by simp
    then show ?thesis using assms by (simp add: slice_def Let_def min_def)
  qed
qed

lemma slice_suffix:
  assumes "int (length xs) \<le> i + k" and "0 \<le> i + k"
  shows "slice xs i (i + k) =
         drop (nat (if i < 0 then max (int (length xs) + i) 0 else min i (int (length xs)))) xs"
proof -
  have to: "(if i + k < 0 then max (int (length xs) + (i + k)) 0 else min (i + k) (int (length xs)))
            = int (length xs)"
    using assms by simp
  show ?thesis
    unfolding slice_def Let_def to by (rule take_all) simp
qed


lemma core_fuzz_range: "snd (find_context_core nfc lines context start) \<in> {0, 1, 100}"
proof (cases "context = []")
  case True
  then show ?thesis by (simp add: find_context_core_def)
next
  case False
  then show ?thesis by (simp add: core_unfold split: option.splits)
qed

lemma core_found:
  assumes "context \<noteq> []" and "find_context_core nfc lines context start = (i, f)"
    and "i \<noteq> - 1"
  shows "start \<le> i \<and> i < int (length lines) \<and>
         (exact_match nfc lines context i \<or> rstrip_match nfc lines context i \<or>
          strip_match nfc lines context i)"
  using assms
  by (auto simp: core_unfold first_index_Some first_match_def split: option.splits)

lemma core_tier_index:
  assumes "context \<noteq> []" and "find_context_core nfc lines context start = (i, f)"
  shows "(start \<le> i \<and> i < int (length lines)) \<or> (i = - 1 \<and> f = 0)"
  using assms
  by (auto simp: core_unfold first_index_Some first_match_def split: option.splits)

lemma core_not_found_fuzz:
  assumes "0 \<le> start" and "fst (find_context_core nfc lines context start) = - 1"
  shows "snd (find_context_core nfc lines context start) = 0"
proof (cases "context = []")
  case True
  then show ?thesis by (simp add: find_context_core_def)
next
  case False
  obtain i f where r: "find_context_core nfc lines context start = (i, f)"
    by (cases "find_context_core nfc lines context start")
  from core_tier_index [OF False r] assms r show ?thesis by auto
qed

text \<open>
  Claim C1, as amended. Without the end-of-file anchor and for a non-empty context, the
  matcher returns the first index of the range from \<open>start\<close> to the end of the file
  whose window matches exactly, that is, is equal to the context after joining and
  canonicalizing, with fuzz 0; failing that the first index that matches after stripping
  trailing white space, with fuzz 1; failing that the first index that matches after
  stripping leading and trailing white space, with fuzz 100; failing that the sentinel.
  When the context occurs in the file at an index \<open>j\<close> at or after \<open>start\<close>, the
  result has fuzz 0 and its index is the first exact match, between \<open>start\<close> and
  \<open>j\<close>, which need not be an index where the context occurs; it is \<open>j\<close> itself when
  no window before \<open>j\<close> matches exactly.
\<close>

theorem find_context_tiers:
  assumes "context \<noteq> []"
  shows "(\<forall>i. first_match (exact_match nfc lines context) start (int (length lines)) i \<longrightarrow>
            find_context nfc lines context start False = (i, 0)) \<and>
         (no_match (exact_match nfc lines context) start (int (length lines)) \<longrightarrow>
            (\<forall>i. first_match (rstrip_match nfc lines context) start (int (length lines)) i \<longrightarrow>
               find_context nfc lines context start False = (i, 1))) \<and>
         (no_match (exact_match nfc lines context) start (int (length lines)) \<and>
          no_match (rstrip_match nfc lines context) start (int (length lines)) \<longrightarrow>
            (\<forall>i. first_match (strip_match nfc lines context) start (int (length lines)) i \<longrightarrow>
               find_context nfc lines context start False = (i, 100))) \<and>
         (no_match (exact_match nfc lines context) start (int (length lines)) \<and>
          no_match (rstrip_match nfc lines context) start (int (length lines)) \<and>
          no_match (strip_match nfc lines context) start (int (length lines)) \<longrightarrow>
            find_context nfc lines context start False = (- 1, 0)) \<and>
         (\<forall>j. start \<le> j \<and> 0 \<le> j \<and> take (length context) (drop (nat j) lines) = context \<longrightarrow>
            (\<exists>i. start \<le> i \<and> i \<le> j \<and>
                 first_match (exact_match nfc lines context) start (int (length lines)) i \<and>
                 find_context nfc lines context start False = (i, 0))) \<and>
         (\<forall>j. start \<le> j \<and> 0 \<le> j \<and> take (length context) (drop (nat j) lines) = context \<and>
              (\<forall>i. start \<le> i \<and> i < j \<longrightarrow> \<not> exact_match nfc lines context i) \<longrightarrow>
            find_context nfc lines context start False = (j, 0))"
proof -
  have fc: "find_context nfc lines context start False = find_context_core nfc lines context start"
    by (simp add: find_context_def)
  have sub: "\<exists>i. start \<le> i \<and> i \<le> j \<and>
                 first_match (exact_match nfc lines context) start (int (length lines)) i \<and>
                 find_context nfc lines context start False = (i, 0)"
    if j: "start \<le> j" "0 \<le> j" "take (length context) (drop (nat j) lines) = context" for j
  proof -
    have win: "slice lines j (j + int (length context)) = context"
      using j by (intro slice_window) simp_all
    then have m: "exact_match nfc lines context j" by (simp add: exact_match_def)
    have "length (take (length context) (drop (nat j) lines)) = length context"
      using j(3) by simp
    then have "length context \<le> length lines - nat j" by simp
    moreover have "0 < length context" using assms by simp
    ultimately have lt: "j < int (length lines)" using j(2) by linarith
    obtain i where i: "i \<le> j" "first_match (exact_match nfc lines context) start (int (length lines)) i"
      using exists_first [where P = "exact_match nfc lines context", OF j(1) lt m] by blast
    have "start \<le> i" using i(2) by (simp add: first_match_def)
    then show ?thesis using i core_exact [OF assms i(2)] fc by auto
  qed
  have lit: "find_context nfc lines context start False = (j, 0)"
    if j: "start \<le> j" "0 \<le> j" "take (length context) (drop (nat j) lines) = context"
      and none: "\<forall>i. start \<le> i \<and> i < j \<longrightarrow> \<not> exact_match nfc lines context i" for j
  proof -
    obtain i where i: "start \<le> i" "i \<le> j" "exact_match nfc lines context i"
      "find_context nfc lines context start False = (i, 0)"
      using sub [OF j] by (auto simp: first_match_def)
    have "i = j" using i(1,2,3) none by (cases "i < j") auto
    then show ?thesis using i(4) by simp
  qed
  have tiers:
    "(\<forall>i. first_match (exact_match nfc lines context) start (int (length lines)) i \<longrightarrow>
            find_context_core nfc lines context start = (i, 0)) \<and>
         (no_match (exact_match nfc lines context) start (int (length lines)) \<longrightarrow>
            (\<forall>i. first_match (rstrip_match nfc lines context) start (int (length lines)) i \<longrightarrow>
               find_context_core nfc lines context start = (i, 1))) \<and>
         (no_match (exact_match nfc lines context) start (int (length lines)) \<and>
          no_match (rstrip_match nfc lines context) start (int (length lines)) \<longrightarrow>
            (\<forall>i. first_match (strip_match nfc lines context) start (int (length lines)) i \<longrightarrow>
               find_context_core nfc lines context start = (i, 100))) \<and>
         (no_match (exact_match nfc lines context) start (int (length lines)) \<and>
          no_match (rstrip_match nfc lines context) start (int (length lines)) \<and>
          no_match (strip_match nfc lines context) start (int (length lines)) \<longrightarrow>
            find_context_core nfc lines context start = (- 1, 0))"
    using core_exact [OF assms] core_rstrip [OF assms] core_strip [OF assms] core_none [OF assms]
    by blast
  show ?thesis
    using tiers [folded fc] sub lit by (intro conjI) blast+
qed

text \<open>
  Claim C2. With the end-of-file anchor, the search is first made from
  \<open>length lines - length context\<close>; a success there is returned as it is, and for a
  non-empty context it is a match of a window that reaches the end of the file. When
  that search reports the sentinel, the search is made again from \<open>start\<close> and its
  index is returned with its tier fuzz increased by 10000.
\<close>

theorem find_context_eof:
  "(fst (find_context_core nfc lines context (int (length lines) - int (length context))) \<noteq> - 1 \<longrightarrow>
      find_context nfc lines context start True =
      find_context_core nfc lines context (int (length lines) - int (length context))) \<and>
   (fst (find_context_core nfc lines context (int (length lines) - int (length context))) = - 1 \<longrightarrow>
      find_context nfc lines context start True =
      (fst (find_context_core nfc lines context start),
       snd (find_context_core nfc lines context start) + 10000) \<and>
      snd (find_context_core nfc lines context start) \<in> {0, 1, 100} \<and>
      10000 \<le> snd (find_context nfc lines context start True)) \<and>
   (context \<noteq> [] \<and>
    fst (find_context_core nfc lines context (int (length lines) - int (length context))) \<noteq> - 1 \<longrightarrow>
      (\<exists>i m. find_context nfc lines context start True =
               (i, snd (find_context_core nfc lines context (int (length lines) - int (length context)))) \<and>
             int (length lines) - int (length context) \<le> i \<and> i < int (length lines) \<and>
             slice lines i (i + int (length context)) = drop m lines \<and>
             (exact_match nfc lines context i \<or> rstrip_match nfc lines context i \<or>
              strip_match nfc lines context i)))"
proof -
  let ?t = "int (length lines) - int (length context)"
  obtain i f where tail: "find_context_core nfc lines context ?t = (i, f)"
    by (cases "find_context_core nfc lines context ?t")
  obtain i' f' where full: "find_context_core nfc lines context start = (i', f')"
    by (cases "find_context_core nfc lines context start")
  have f': "f' \<in> {0, 1, 100}" using core_fuzz_range [of nfc lines "context" start] full by simp
  have a: "i \<noteq> - 1 \<longrightarrow> find_context nfc lines context start True = (i, f)"
    by (simp add: find_context_def tail)
  have b: "i = - 1 \<longrightarrow> find_context nfc lines context start True = (i', f' + 10000)"
    by (simp add: find_context_def tail full)
  have c: "\<exists>m. slice lines i (i + int (length context)) = drop m lines \<and>
             ?t \<le> i \<and> i < int (length lines) \<and>
             (exact_match nfc lines context i \<or> rstrip_match nfc lines context i \<or>
              strip_match nfc lines context i)"
    if ne: "context \<noteq> []" and i: "i \<noteq> - 1"
  proof -
    have fd: "?t \<le> i \<and> i < int (length lines) \<and>
         (exact_match nfc lines context i \<or> rstrip_match nfc lines context i \<or>
          strip_match nfc lines context i)"
      using core_found [OF ne tail] i by simp
    then have "int (length lines) \<le> i + int (length context)" "0 \<le> i + int (length context)"
      by linarith+
    from slice_suffix [OF this] fd show ?thesis by blast
  qed
  show ?thesis
    unfolding tail full fst_conv snd_conv using a b c f' by auto
qed

text \<open>
  Claim C7, as amended. For a start offset that is not negative, when the matcher
  returns the sentinel index the fuzz is 0 without the end-of-file anchor and 10000
  with it.
\<close>

theorem find_context_not_found_fuzz:
  assumes "0 \<le> start" and "fst (find_context nfc lines context start eof) = - 1"
  shows "snd (find_context nfc lines context start eof) = (if eof then 10000 else 0)"
proof (cases eof)
  case False
  then show ?thesis using assms core_not_found_fuzz [of start nfc lines "context"]
    by (simp add: find_context_def)
next
  case True
  let ?t = "int (length lines) - int (length context)"
  obtain i f where tail: "find_context_core nfc lines context ?t = (i, f)"
    by (cases "find_context_core nfc lines context ?t")
  have "i = - 1" using assms(2) True by (auto simp: find_context_def tail split: if_splits)
  then have r: "find_context nfc lines context start eof =
            (fst (find_context_core nfc lines context start),
             snd (find_context_core nfc lines context start) + 10000)"
    using True by (simp add: find_context_def tail split: prod.splits)
  then have "fst (find_context_core nfc lines context start) = - 1" using assms(2) by simp
  then have "snd (find_context_core nfc lines context start) = 0"
    using core_not_found_fuzz [OF assms(1)] by simp
  then show ?thesis using r True by simp
qed

text \<open>
  Claim C8, as amended. An empty context matches at \<open>start\<close> with fuzz 0 without the
  end-of-file anchor, and at the end of the file, index \<open>length lines\<close>, with fuzz 0
  with it.
\<close>

theorem find_context_empty:
  "find_context nfc lines [] start eof = (if eof then (int (length lines), 0) else (start, 0))"
  by (simp add: find_context_def find_context_core_def)

theorem find_context_empty_counterexample:
  "find_context (\<lambda>s. s) [[97], [98]] [] 0 True \<noteq> (0, 0)"
  by (simp add: find_context_def find_context_core_def)

theorem find_context_tiers_counterexample:
  "find_context (\<lambda>s. s) [[0x2014], [0x2D]] [[0x2D]] 0 False = (0, 0) \<and>
   take (length [[0x2D :: nat]]) (drop (nat 0) [[0x2014], [0x2D]]) \<noteq> [[0x2D :: nat]] \<and>
   take (length [[0x2D :: nat]]) (drop (nat 1) [[0x2014], [0x2D]]) = [[0x2D :: nat]]"
  by (simp add: find_context_def find_context_core_def first_index.simps slice_def canon_def
      punct_def PUNCT_EQUIV_def Let_def)

theorem find_context_not_found_fuzz_counterexample:
  "fst (find_context (\<lambda>s. s) [[97]] [[98]] 0 True) = - 1 \<and>
   snd (find_context (\<lambda>s. s) [[97]] [[98]] 0 True) \<noteq> 0"
  by (simp add: find_context_def find_context_core_def first_index.simps slice_def canon_def
      punct_def PUNCT_EQUIV_def trim_def trimEnd_def trimStart_def is_space_def Let_def)

lemmas matcher_eval =
  find_context_def find_context_core_def first_index.simps slice_def canon_def
  punct_def PUNCT_EQUIV_def trim_def trimEnd_def trimStart_def is_space_def Let_def
  exact_match_def rstrip_match_def strip_match_def

theorem find_context_tiers_witness:
  "[[98]] \<noteq> ([] :: ustring list) \<and>
   find_context (\<lambda>s. s) [[97], [98, 32], [98]] [[98]] 0 False = (2, 0) \<and>
   find_context (\<lambda>s. s) [[97], [98, 32]] [[98]] 0 False = (1, 1) \<and>
   find_context (\<lambda>s. s) [[97], [32, 98]] [[98]] 0 False = (1, 100) \<and>
   find_context (\<lambda>s. s) [[97], [99]] [[98]] 0 False = (- 1, 0)"
proof -
  have ne: "[[98]] \<noteq> ([] :: ustring list)" by simp
  have a: "first_match (exact_match (\<lambda>s. s) [[97], [98, 32], [98]] [[98]]) 0
             (int (length [[97], [98, 32], [98 :: nat]])) 2"
    unfolding first_index_Some [symmetric] by (simp add: matcher_eval)
  have b0: "no_match (exact_match (\<lambda>s. s) [[97], [98, 32]] [[98]]) 0
             (int (length [[97], [98 :: nat, 32]]))"
    unfolding first_index_None [symmetric] by (simp add: matcher_eval)
  have b: "first_match (rstrip_match (\<lambda>s. s) [[97], [98, 32]] [[98]]) 0
             (int (length [[97], [98 :: nat, 32]])) 1"
    unfolding first_index_Some [symmetric] by (simp add: matcher_eval)
  have c0: "no_match (exact_match (\<lambda>s. s) [[97], [32, 98]] [[98]]) 0
             (int (length [[97], [32 :: nat, 98]]))"
    unfolding first_index_None [symmetric] by (simp add: matcher_eval)
  have c1: "no_match (rstrip_match (\<lambda>s. s) [[97], [32, 98]] [[98]]) 0
             (int (length [[97], [32 :: nat, 98]]))"
    unfolding first_index_None [symmetric] by (simp add: matcher_eval)
  have c: "first_match (strip_match (\<lambda>s. s) [[97], [32, 98]] [[98]]) 0
             (int (length [[97], [32 :: nat, 98]])) 1"
    unfolding first_index_Some [symmetric] by (simp add: matcher_eval)
  have d0: "no_match (exact_match (\<lambda>s. s) [[97], [99]] [[98]]) 0
             (int (length [[97], [99 :: nat]]))"
    unfolding first_index_None [symmetric] by (simp add: matcher_eval)
  have d1: "no_match (rstrip_match (\<lambda>s. s) [[97], [99]] [[98]]) 0
             (int (length [[97], [99 :: nat]]))"
    unfolding first_index_None [symmetric] by (simp add: matcher_eval)
  have d2: "no_match (strip_match (\<lambda>s. s) [[97], [99]] [[98]]) 0
             (int (length [[97], [99 :: nat]]))"
    unfolding first_index_None [symmetric] by (simp add: matcher_eval)
  note T = find_context_tiers [OF ne]
  have r1: "find_context (\<lambda>s. s) [[97], [98, 32], [98]] [[98]] 0 False = (2, 0)"
    using T [THEN conjunct1, rule_format, OF a] .
  have r2: "find_context (\<lambda>s. s) [[97], [98, 32]] [[98]] 0 False = (1, 1)"
    using T [THEN conjunct2, THEN conjunct1, rule_format, OF b0 b] .
  have r3: "find_context (\<lambda>s. s) [[97], [32, 98]] [[98]] 0 False = (1, 100)"
    using T [THEN conjunct2, THEN conjunct2, THEN conjunct1, rule_format, OF conjI [OF c0 c1] c] .
  have r4: "find_context (\<lambda>s. s) [[97], [99]] [[98]] 0 False = (- 1, 0)"
    using T [THEN conjunct2, THEN conjunct2, THEN conjunct2, THEN conjunct1, rule_format,
        OF conjI [OF d0 conjI [OF d1 d2]]] .
  show ?thesis using ne r1 r2 r3 r4 by (intro conjI)
qed

theorem find_context_eof_witness:
  "find_context (\<lambda>s. s) [[97], [98]] [[97]] 0 True = (0, 10000) \<and>
   find_context (\<lambda>s. s) [[97], [98], [97]] [[97]] 0 True = (2, 0)"
proof -
  have t1: "find_context_core (\<lambda>s. s) [[97], [98]] [[97]]
              (int (length [[97], [98 :: nat]]) - int (length [[97 :: nat]])) = (- 1, 0)"
    by (simp add: matcher_eval)
  have f1: "find_context_core (\<lambda>s. s) [[97], [98]] [[97]] 0 = (0, 0)"
    by (simp add: matcher_eval)
  have t2: "find_context_core (\<lambda>s. s) [[97], [98], [97]] [[97]]
              (int (length [[97], [98], [97 :: nat]]) - int (length [[97 :: nat]])) = (2, 0)"
    by (simp add: matcher_eval)
  have n1: "fst (find_context_core (\<lambda>s. s) [[97], [98]] [[97]]
              (int (length [[97], [98 :: nat]]) - int (length [[97 :: nat]]))) = - 1"
    unfolding t1 by simp
  have n2: "fst (find_context_core (\<lambda>s. s) [[97], [98], [97]] [[97]]
              (int (length [[97], [98], [97 :: nat]]) - int (length [[97 :: nat]]))) \<noteq> - 1"
    unfolding t2 by simp
  have r1: "find_context (\<lambda>s. s) [[97], [98]] [[97]] 0 True =
      (fst (find_context_core (\<lambda>s. s) [[97], [98]] [[97]] 0),
       snd (find_context_core (\<lambda>s. s) [[97], [98]] [[97]] 0) + 10000)"
    using find_context_eof [THEN conjunct2, THEN conjunct1, rule_format, OF n1, THEN conjunct1] .
  have r2: "find_context (\<lambda>s. s) [[97], [98], [97]] [[97]] 0 True =
      find_context_core (\<lambda>s. s) [[97], [98], [97]] [[97]]
              (int (length [[97], [98], [97 :: nat]]) - int (length [[97 :: nat]]))"
    using find_context_eof [THEN conjunct1, rule_format, OF n2] .
  show ?thesis using r1 r2 unfolding t2 f1 by simp
qed

theorem find_context_not_found_fuzz_witness:
  "(0 :: int) \<le> 0 \<and> fst (find_context (\<lambda>s. s) [[97]] [[98]] 0 False) = - 1 \<and>
   snd (find_context (\<lambda>s. s) [[97]] [[98]] 0 False) = 0 \<and>
   fst (find_context (\<lambda>s. s) [[97]] [[98]] 0 True) = - 1 \<and>
   snd (find_context (\<lambda>s. s) [[97]] [[98]] 0 True) = 10000"
proof -
  have s: "(0 :: int) \<le> 0" by simp
  have a: "fst (find_context (\<lambda>s. s) [[97]] [[98]] 0 False) = - 1"
    by (simp add: matcher_eval)
  have b: "fst (find_context (\<lambda>s. s) [[97]] [[98]] 0 True) = - 1"
    by (simp add: matcher_eval)
  have ra: "snd (find_context (\<lambda>s. s) [[97]] [[98]] 0 False) = 0"
    using find_context_not_found_fuzz [OF s a] by simp
  have rb: "snd (find_context (\<lambda>s. s) [[97]] [[98]] 0 True) = 10000"
    using find_context_not_found_fuzz [OF s b] by simp
  show ?thesis using s a b ra rb by (intro conjI)
qed

section \<open>Properties of the Commit Builder\<close>

lemma slice_between:
  assumes "0 \<le> a" and "a \<le> b" and "b \<le> int (length xs)"
  shows "slice xs a b = take (nat (b - a)) (drop (nat a) xs)"
  using assms by (simp add: slice_def Let_def min_def)

lemma slice_rest:
  assumes "0 \<le> a"
  shows "slice xs a (int (length xs)) = drop (nat a) xs"
proof (cases "a \<le> int (length xs)")
  case True
  then show ?thesis using assms by (simp add: slice_def Let_def min_def)
next
  case False
  then show ?thesis using assms by (simp add: slice_def Let_def min_def)
qed

lemma apply_chunks_ok:
  assumes "0 \<le> cursor" and "chunks_in_order cursor (length origLines) cs"
  shows "apply_chunks path origLines cs dest cursor = Inr (dest @ rebuilt origLines cursor cs)"
  using assms
proof (induction cs arbitrary: dest cursor)
  case Nil
  then show ?case by (simp add: slice_rest)
next
  case (Cons c cs)
  have b: "cursor \<le> orig_index c" "orig_index c \<le> int (length origLines)"
    and rest: "chunks_in_order (orig_index c + int (length (del_lines c))) (length origLines) cs"
    using Cons.prems(2) by simp_all
  have nn: "0 \<le> orig_index c + int (length (del_lines c))" using b Cons.prems(1) by linarith
  have sl: "slice origLines cursor (orig_index c) =
            take (nat (orig_index c - cursor)) (drop (nat cursor) origLines)"
    using Cons.prems(1) b by (rule slice_between)
  show ?case using b Cons.IH [OF nn rest] sl by simp
qed

lemma apply_chunks_fail:
  assumes "\<not> chunks_in_order cursor (length origLines) cs"
  shows "\<exists>i j n. apply_chunks path origLines cs dest cursor = Inl (ChunkIndexPastEnd path i n) \<or>
                 apply_chunks path origLines cs dest cursor = Inl (ChunkBeforeCursor path i j)"
  using assms
proof (induction cs arbitrary: dest cursor)
  case Nil
  then show ?case by simp
next
  case (Cons c cs)
  show ?case
  proof (cases "orig_index c \<le> int (length origLines) \<and> cursor \<le> orig_index c")
    case True
    then have "\<not> chunks_in_order (orig_index c + int (length (del_lines c))) (length origLines) cs"
      using Cons.prems by simp
    from Cons.IH [OF this] True show ?thesis by simp
  next
    case False
    then show ?thesis by auto
  qed
qed

text \<open>
  Claim C3. For an Update action, the Commit Builder fails with a patch error when the
  chunks are not in order from cursor 0 (some chunk starts beyond the line count of the
  original, or before the cursor left by the chunks before it), and otherwise returns
  the text that copies the original lines between the cursor and each chunk, appends the
  inserted lines, skips the deleted lines and copies the remaining lines.
\<close>

theorem get_updated_file_spec:
  assumes "type action = UPDATE"
  shows "(chunks_in_order 0 (length (split_nl text)) (chunks action) \<longrightarrow>
            get_updated_file text action path =
            Inr (join_nl (rebuilt (split_nl text) 0 (chunks action)))) \<and>
         (\<not> chunks_in_order 0 (length (split_nl text)) (chunks action) \<longrightarrow>
            (\<exists>i j n. get_updated_file text action path = Inl (ChunkIndexPastEnd path i n) \<or>
                     get_updated_file text action path = Inl (ChunkBeforeCursor path i j)))"
proof (intro conjI impI)
  assume "chunks_in_order 0 (length (split_nl text)) (chunks action)"
  then have "apply_chunks path (split_nl text) (chunks action) [] 0 =
             Inr ([] @ rebuilt (split_nl text) 0 (chunks action))"
    by (intro apply_chunks_ok) simp_all
  then show "get_updated_file text action path =
             Inr (join_nl (rebuilt (split_nl text) 0 (chunks action)))"
    using assms by (simp add: get_updated_file_def)
next
  assume "\<not> chunks_in_order 0 (length (split_nl text)) (chunks action)"
  from apply_chunks_fail [OF this, of path "[]"]
  show "\<exists>i j n. get_updated_file text action path = Inl (ChunkIndexPastEnd path i n) \<or>
                get_updated_file text action path = Inl (ChunkBeforeCursor path i j)"
    using assms by (auto simp: get_updated_file_def)
qed

lemma split3: "split_nl (ascii ''one\<newline>two\<newline>three'') = [ascii ''one'', ascii ''two'', ascii ''three'']"
  by (simp add: ascii_def)

theorem get_updated_file_spec_witness:
  "type \<lparr>type = UPDATE, new_file = None,
         chunks = [\<lparr>orig_index = 1, del_lines = [ascii ''two''], ins_lines = []\<rparr>],
         move_path = None\<rparr> = UPDATE \<and>
   get_updated_file (ascii ''one\<newline>two\<newline>three'')
     \<lparr>type = UPDATE, new_file = None,
      chunks = [\<lparr>orig_index = 1, del_lines = [ascii ''two''], ins_lines = []\<rparr>],
      move_path = None\<rparr> (ascii ''a.txt'') = Inr (ascii ''one\<newline>three'') \<and>
   (\<exists>i j n. get_updated_file (ascii ''one\<newline>two\<newline>three'')
     \<lparr>type = UPDATE, new_file = None,
      chunks = [\<lparr>orig_index = 4, del_lines = [], ins_lines = []\<rparr>],
      move_path = None\<rparr> (ascii ''a.txt'') = Inl (ChunkIndexPastEnd (ascii ''a.txt'') i n) \<or>
     get_updated_file (ascii ''one\<newline>two\<newline>three'')
     \<lparr>type = UPDATE, new_file = None,
      chunks = [\<lparr>orig_index = 4, del_lines = [], ins_lines = []\<rparr>],
      move_path = None\<rparr> (ascii ''a.txt'') = Inl (ChunkBeforeCursor (ascii ''a.txt'') i j))"
proof -
  let ?a = "\<lparr>type = UPDATE, new_file = None,
         chunks = [\<lparr>orig_index = 1, del_lines = [ascii ''two''], ins_lines = []\<rparr>],
         move_path = None\<rparr>"
  let ?b = "\<lparr>type = UPDATE, new_file = None,
      chunks = [\<lparr>orig_index = 4, del_lines = [], ins_lines = []\<rparr>],
      move_path = None\<rparr>"
  have ta: "type ?a = UPDATE" by simp
  have tb: "type ?b = UPDATE" by simp
  have oka: "chunks_in_order 0 (length (split_nl (ascii ''one\<newline>two\<newline>three''))) (chunks ?a)"
    unfolding split3 by simp
  have nokb: "\<not> chunks_in_order 0 (length (split_nl (ascii ''one\<newline>two\<newline>three''))) (chunks ?b)"
    unfolding split3 by simp
  have ra: "get_updated_file (ascii ''one\<newline>two\<newline>three'') ?a (ascii ''a.txt'') =
        Inr (join_nl (rebuilt (split_nl (ascii ''one\<newline>two\<newline>three'')) 0 (chunks ?a)))"
    using get_updated_file_spec [OF ta, THEN conjunct1, rule_format, OF oka] .
  have "join_nl (rebuilt (split_nl (ascii ''one\<newline>two\<newline>three'')) 0 (chunks ?a)) = ascii ''one\<newline>three''"
    unfolding split3 by (simp add: ascii_def)
  then have ra': "get_updated_file (ascii ''one\<newline>two\<newline>three'') ?a (ascii ''a.txt'') = Inr (ascii ''one\<newline>three'')"
    using ra by simp
  note rb = get_updated_file_spec [OF tb, THEN conjunct2, rule_format, OF nokb]
  show ?thesis using ta ra' rb by (intro conjI)
qed

section \<open>Properties of the Chunk Builder and the Directive Parser\<close>

lemma section_line_inv:
  assumes "section_inv st"
  shows "section_inv (section_line s st)"
  using assms
  unfolding section_inv_def section_line_def Let_def chunks_monotone_def pending_chunk_def
  by (auto simp: sorted_wrt_append list_all_iff)

lemma peek_loop_inv:
  "peek_loop lines i st = Inr (j, st') \<Longrightarrow> section_inv st \<Longrightarrow> section_inv st'"
proof (induction lines i st rule: peek_loop.induct)
  case (1 lines index st)
  show ?case
  proof (cases "index < length lines \<and> \<not> section_break (lines ! index) \<and>
                \<not> startsWith (lines ! index) (ascii ''***'')")
    case True
    then have "peek_loop lines (index + 1) (section_line (lines ! index) st) = Inr (j, st')"
      using "1.prems"(1) by (simp add: peek_loop.simps [of lines index st])
    moreover have "section_inv (section_line (lines ! index) st)"
      using "1.prems"(2) by (rule section_line_inv)
    ultimately show ?thesis using "1.IH" True by blast
  next
    case False
    then have "st' = st"
      using "1.prems"(1) by (auto simp: peek_loop.simps [of lines index st] split: if_splits)
    then show ?thesis using "1.prems"(2) by simp
  qed
qed

lemma peek_next_section_chunks:
  assumes "peek_next_section lines i = Inr (ctx, chs, j, eof)"
  shows "chunks_monotone chs \<and>
         list_all (\<lambda>c. 0 \<le> orig_index c \<and>
                        orig_index c + int (length (del_lines c)) \<le> int (length ctx)) chs"
proof -
  let ?st0 = "\<lparr>old = [], delLines = [], insLines = [], sec_chunks = [], sec_mode = Keep\<rparr>"
  obtain k st where pl: "peek_loop lines i ?st0 = Inr (k, st)"
    using assms by (auto simp: peek_next_section_def split: sum.splits)
  have "section_inv ?st0" by (simp add: section_inv_def chunks_monotone_def)
  then have inv: "section_inv st" using pl peek_loop_inv by blast
  have ctx: "ctx = old st"
    and chs: "chs = (if insLines st \<noteq> [] \<or> delLines st \<noteq> []
                     then sec_chunks st @ [pending_chunk st] else sec_chunks st)"
    using assms pl by (auto simp: peek_next_section_def Let_def split: if_splits)
  show ?thesis
    using inv unfolding ctx chs section_inv_def chunks_monotone_def pending_chunk_def
    by (auto simp: sorted_wrt_append list_all_iff)
qed

lemma peek_next_section_no_eof:
  assumes "peek_next_section lines i = Inr (ctx, chs, j, eof)"
    and "END_OF_FILE_PREFIX \<notin> set lines"
  shows "\<not> eof"
  using assms
  by (auto simp: peek_next_section_def Let_def in_set_conv_nth split: sum.splits if_splits)

lemma find_context_from_start:
  assumes "find_context nfc fileLines ctx start False = (newIndex, fz)" and "newIndex \<noteq> - 1"
  shows "start \<le> newIndex"
proof (cases "ctx = []")
  case True
  then show ?thesis using assms by (simp add: find_context_def find_context_core_def)
next
  case False
  have "find_context_core nfc fileLines ctx start = (newIndex, fz)"
    using assms(1) by (simp add: find_context_def)
  from core_tier_index [OF False this] assms(2) show ?thesis by simp
qed

lemma update_inv_step:
  assumes inv: "update_inv index acc"
    and chs: "chunks_monotone chs"
      "list_all (\<lambda>c. 0 \<le> orig_index c \<and>
                     orig_index c + int (length (del_lines c)) \<le> int (length ctx)) chs"
    and le: "index \<le> newIndex"
  shows "update_inv (newIndex + int (length ctx))
           (acc @ map (\<lambda>ch. ch\<lparr>orig_index := orig_index ch + newIndex\<rparr>) chs)"
  using assms
  unfolding update_inv_def chunks_monotone_def
  by (fastforce simp: sorted_wrt_append sorted_wrt_map list_all_iff)

lemma update_step_Inr:
  assumes "update_step nfc lines fileLines pindex index acc fuzz = Inr (p', index', acc', fuzz')"
  shows "\<exists>ctx chs eof newIndex fz.
           peek_next_section lines (section_start lines pindex) = Inr (ctx, chs, p', eof) \<and>
           find_context nfc fileLines ctx index eof = (newIndex, fz) \<and> newIndex \<noteq> - 1 \<and>
           index' = newIndex + int (length ctx) \<and>
           acc' = acc @ map (\<lambda>ch. ch\<lparr>orig_index := orig_index ch + newIndex\<rparr>) chs \<and>
           fuzz' = fuzz + fz"
proof -
  obtain defStr p1 where rs: "read_str lines pindex (ascii ''@@ '') = Inr (defStr, p1)"
    using assms by (cases "read_str lines pindex (ascii ''@@ '')") (auto simp: update_step_def)
  define p2 where "p2 = (if defStr = [] \<and> line_at lines p1 = Some (ascii ''@@'') then p1 + 1 else p1)"
  have ss: "section_start lines pindex = p2"
    by (simp add: section_start_def rs p2_def)
  from assms obtain ctx chs e eof where pk: "peek_next_section lines p2 = Inr (ctx, chs, e, eof)"
    unfolding update_step_def rs p2_def
    by (cases "peek_next_section lines
                 (if defStr = [] \<and> line_at lines p1 = Some (ascii ''@@'') then p1 + 1 else p1)")
      (auto simp: Let_def split: if_splits)
  obtain newIndex fz where fc: "find_context nfc fileLines ctx index eof = (newIndex, fz)"
    by (cases "find_context nfc fileLines ctx index eof")
  from assms have "newIndex \<noteq> - 1 \<and> p' = e \<and> index' = newIndex + int (length ctx) \<and>
           acc' = acc @ map (\<lambda>ch. ch\<lparr>orig_index := orig_index ch + newIndex\<rparr>) chs \<and>
           fuzz' = fuzz + fz"
    unfolding update_step_def rs using pk [unfolded p2_def] fc
    by (simp add: Let_def split: if_splits)
  then show ?thesis using pk fc unfolding ss by blast
qed

lemma eof_hunks_in_place_done:
  assumes "is_done lines pindex
           [PATCH_SUFFIX, UPDATE_FILE_PREFIX, DELETE_FILE_PREFIX, ADD_FILE_PREFIX,
            END_OF_FILE_PREFIX]"
  shows "eof_hunks_in_place n nfc lines fileLines pindex index"
  using assms by (cases n) simp_all

lemma eof_hunks_in_place_no_eof:
  assumes "END_OF_FILE_PREFIX \<notin> set lines"
  shows "eof_hunks_in_place n nfc lines fileLines pindex index"
proof (induction n arbitrary: pindex index)
  case 0
  show ?case by simp
next
  case (Suc n)
  show ?case
  proof (cases "peek_next_section lines (section_start lines pindex)")
    case (Inl e)
    then show ?thesis by simp
  next
    case (Inr res)
    obtain ctx chs e eof where res: "res = (ctx, chs, e, eof)" by (cases res)
    have "\<not> eof" using Inr [unfolded res] assms by (rule peek_next_section_no_eof)
    then show ?thesis using Suc.IH by (simp add: Inr res split: prod.splits)
  qed
qed

lemma update_loop_in_place:
  assumes "update_loop nfc lines fileLines pindex index acc fuzz = Some r"
  shows "(\<forall>n. eof_hunks_in_place n nfc lines fileLines pindex index) \<longrightarrow>
         update_inv index acc \<longrightarrow>
         (\<forall>acc' p' f'. r = Inr (acc', p', f') \<longrightarrow> chunks_monotone acc')"
proof (rule update_loop.raw_induct
    [where P = "\<lambda>nfc lines fileLines pindex index acc fuzz r.
       (\<forall>n. eof_hunks_in_place n nfc lines fileLines pindex index) \<longrightarrow>
       update_inv index acc \<longrightarrow>
       (\<forall>acc' p' f'. r = Inr (acc', p', f') \<longrightarrow> chunks_monotone acc')", OF _ assms],
    goal_cases)
  case (1 update_loop nfc lines fileLines pindex index acc fuzz r)
  note IH = "1"(1) and hyps = "1"(2)
  show ?case
  proof (intro impI allI)
    fix acc' p' f'
    assume place: "\<forall>n. eof_hunks_in_place n nfc lines fileLines pindex index"
      and inv: "update_inv index acc"
      and r: "r = Inr (acc', p', f')"
    show "chunks_monotone acc'"
    proof (cases "is_done lines pindex
           [PATCH_SUFFIX, UPDATE_FILE_PREFIX, DELETE_FILE_PREFIX, ADD_FILE_PREFIX,
            END_OF_FILE_PREFIX]")
      case True
      then have "acc' = acc" using hyps r by simp
      then show ?thesis using inv by (simp add: update_inv_def)
    next
      case False
      then obtain p1 i1 a1 f1 where
        st: "update_step nfc lines fileLines pindex index acc fuzz = Inr (p1, i1, a1, f1)"
        and rc: "update_loop nfc lines fileLines p1 i1 a1 f1 = Some r"
        using hyps r by (auto split: sum.splits)
      from update_step_Inr [OF st] obtain ctx chs eof newIndex fz where
        pk: "peek_next_section lines (section_start lines pindex) = Inr (ctx, chs, p1, eof)"
        and fc: "find_context nfc fileLines ctx index eof = (newIndex, fz)"
        and ni: "newIndex \<noteq> - 1"
        and i1: "i1 = newIndex + int (length ctx)"
        and a1: "a1 = acc @ map (\<lambda>ch. ch\<lparr>orig_index := orig_index ch + newIndex\<rparr>) chs"
        by blast
      have step: "\<not> (eof \<and> newIndex < index) \<and>
                  eof_hunks_in_place n nfc lines fileLines p1 i1" for n
        using place [rule_format, of "Suc n"] False pk fc ni i1 by simp
      have le: "index \<le> newIndex"
      proof (cases eof)
        case True
        then show ?thesis using step [of 0] by simp
      next
        case False
        then show ?thesis using fc ni find_context_from_start by simp
      qed
      have "update_inv i1 a1"
        unfolding i1 a1 using inv peek_next_section_chunks [OF pk] le
        by (intro update_inv_step) simp_all
      moreover have "\<forall>n. eof_hunks_in_place n nfc lines fileLines p1 i1" using step by blast
      ultimately show ?thesis using IH [OF rc] r by blast
    qed
  qed
qed

lemma parse_update_file_action:
  assumes "parse_update_file nfc lines pindex fuzz content = Some (Inr (action, p', f'))"
  shows "\<exists>acc. action = \<lparr>type = UPDATE, new_file = None, chunks = acc, move_path = None\<rparr> \<and>
               update_loop nfc lines (split_nl content) pindex 0 [] fuzz = Some (Inr (acc, p', f'))"
  using assms by (auto simp: parse_update_file_def split: option.splits sum.splits)

lemma parse_update_file_in_place:
  assumes "parse_update_file nfc lines pindex fuzz content = Some (Inr (action, p', f'))"
    and "\<forall>n. eof_hunks_in_place n nfc lines (split_nl content) pindex 0"
  shows "chunks_monotone (chunks action)"
proof -
  obtain acc where a: "action = \<lparr>type = UPDATE, new_file = None, chunks = acc, move_path = None\<rparr>"
    and ul: "update_loop nfc lines (split_nl content) pindex 0 [] fuzz = Some (Inr (acc, p', f'))"
    using parse_update_file_action [OF assms(1)] by blast
  have "update_inv 0 []" by (simp add: update_inv_def chunks_monotone_def)
  then have "chunks_monotone acc" using update_loop_in_place [OF ul] assms(2) by blast
  then show ?thesis using a by simp
qed

lemma parse_add_file_type:
  "parse_add_file lines i = Inr (action, j) \<Longrightarrow> type action = ADD"
  by (auto simp: parse_add_file_def split: sum.splits)

lemma parse_step_Inr:
  assumes "parse_step nfc current_files lines index patch fuzz = Some (Inr (i', patch', f'))"
  shows "\<exists>path action. patch' = patch @ [(path, action)] \<and> \<not> has_action patch path \<and>
           ((\<exists>i1 moveTo i2 content a.
               read_str lines index UPDATE_FILE_PREFIX = Inr (path, i1) \<and> path \<noteq> [] \<and>
               read_str lines i1 MOVE_FILE_TO_PREFIX = Inr (moveTo, i2) \<and>
               current_files path = Some content \<and>
               parse_update_file nfc lines i2 fuzz content = Some (Inr (a, i', f')) \<and>
               action = a\<lparr>move_path := (if moveTo = [] then None else Some moveTo)\<rparr>) \<or>
            type action \<noteq> UPDATE)"
proof -
  obtain path i1 where r1: "read_str lines index UPDATE_FILE_PREFIX = Inr (path, i1)"
    using assms by (cases "read_str lines index UPDATE_FILE_PREFIX") (auto simp: parse_step_def)
  show ?thesis
  proof (cases "path = []")
    case False
    have np: "\<not> has_action patch path"
      using assms False by (simp add: parse_step_def r1 split: if_splits)
    obtain moveTo i2 where r2: "read_str lines i1 MOVE_FILE_TO_PREFIX = Inr (moveTo, i2)"
      using assms False np
      by (cases "read_str lines i1 MOVE_FILE_TO_PREFIX") (auto simp: parse_step_def r1)
    have inf: "in_files current_files path"
      using assms False np by (simp add: parse_step_def r1 r2 split: if_splits)
    obtain content where cf: "current_files path = Some content"
      using assms False np inf
      by (cases "current_files path") (auto simp: parse_step_def r1 r2)
    obtain a where pu: "parse_update_file nfc lines i2 fuzz content = Some (Inr (a, i', f'))"
      and p': "patch' = patch @ [(path, a\<lparr>move_path := (if moveTo = [] then None else Some moveTo)\<rparr>)]"
      using assms False np inf
      by (auto simp: parse_step_def r1 r2 cf split: option.splits sum.splits)
    show ?thesis using r1 False r2 cf pu p' np by blast
  next
    case True
    obtain path2 i2 where r2: "read_str lines i1 DELETE_FILE_PREFIX = Inr (path2, i2)"
      using assms True
      by (cases "read_str lines i1 DELETE_FILE_PREFIX") (auto simp: parse_step_def r1)
    show ?thesis
    proof (cases "path2 = []")
      case False
      then show ?thesis
        using assms True by (auto simp: parse_step_def r1 r2 split: if_splits)
    next
      case p2: True
      obtain path3 i3 where r3: "read_str lines i2 ADD_FILE_PREFIX = Inr (path3, i3)"
        using assms True p2
        by (cases "read_str lines i2 ADD_FILE_PREFIX") (auto simp: parse_step_def r1 r2)
      show ?thesis
        using assms True p2
        by (auto simp: parse_step_def r1 r2 r3 split: if_splits sum.splits
            dest: parse_add_file_type)
    qed
  qed
qed

lemma parse_step_entry:
  assumes "parse_step nfc current_files lines index patch fuzz = Some (Inr (i', patch', f'))"
    and "list_all (entry_read nfc current_files lines) patch"
  shows "list_all (entry_read nfc current_files lines) patch'"
proof -
  from parse_step_Inr [OF assms(1)] obtain path action where
    p': "patch' = patch @ [(path, action)]" and
    c: "(\<exists>i2 moveTo content a.
           current_files path = Some content \<and>
           parse_update_file nfc lines i2 fuzz content = Some (Inr (a, i', f')) \<and>
           action = a\<lparr>move_path := (if moveTo = [] then None else Some moveTo)\<rparr>) \<or>
        type action \<noteq> UPDATE"
    by blast
  have "entry_read nfc current_files lines (path, action)"
  proof (cases "type action = UPDATE")
    case False
    then show ?thesis by (simp add: entry_read_def)
  next
    case True
    then obtain i2 moveTo content a where
      cf: "current_files path = Some content" and
      pu: "parse_update_file nfc lines i2 fuzz content = Some (Inr (a, i', f'))" and
      ac: "action = a\<lparr>move_path := (if moveTo = [] then None else Some moveTo)\<rparr>"
      using c by blast
    obtain acc where a: "a = \<lparr>type = UPDATE, new_file = None, chunks = acc, move_path = None\<rparr>"
      using parse_update_file_action [OF pu] by blast
    have "action\<lparr>move_path := None\<rparr> = a" unfolding ac a by simp
    then show ?thesis using cf pu unfolding entry_read_def by auto
  qed
  then show ?thesis using assms(2) p' by simp
qed

lemma parse_entries:
  assumes "parse nfc current_files lines index patch fuzz = Some r"
  shows "list_all (entry_read nfc current_files lines) patch \<longrightarrow>
         (\<forall>i' patch' f'. r = Inr (i', patch', f') \<longrightarrow>
            list_all (entry_read nfc current_files lines) patch')"
proof (rule parse.raw_induct
    [where P = "\<lambda>nfc current_files lines index patch fuzz r.
       list_all (entry_read nfc current_files lines) patch \<longrightarrow>
       (\<forall>i' patch' f'. r = Inr (i', patch', f') \<longrightarrow>
          list_all (entry_read nfc current_files lines) patch')", OF _ assms],
    goal_cases)
  case (1 parse nfc current_files lines index patch fuzz r)
  note IH = "1"(1) and hyps = "1"(2)
  show ?case
  proof (intro impI allI)
    fix i' patch' f'
    assume inv: "list_all (entry_read nfc current_files lines) patch"
      and r: "r = Inr (i', patch', f')"
    show "list_all (entry_read nfc current_files lines) patch'"
    proof (cases "is_done lines index [PATCH_SUFFIX]")
      case True
      then have "patch' = patch" using hyps r by (auto split: option.splits if_splits)
      then show ?thesis using inv by simp
    next
      case False
      then obtain i1 p1 f1 where
        st: "parse_step nfc current_files lines index patch fuzz = Some (Inr (i1, p1, f1))"
        and rc: "parse nfc current_files lines i1 p1 f1 = Some r"
        using hyps r by (auto split: option.splits sum.splits)
      have "list_all (entry_read nfc current_files lines) p1"
        using parse_step_entry [OF st inv] .
      then show ?thesis using IH [OF rc] r by blast
    qed
  qed
qed

text \<open>
  Claim C4, as amended. When \<open>text_to_patch\<close> succeeds, every Update action of the
  resulting patch is the action that \<open>parse_update_file\<close> reads at some cursor of the
  patch from the original text of its path. Whenever in such a reading no hunk anchored
  at the end of the file is found before the running position it is searched from, the
  chunks of the action are ordered by non-decreasing \<open>orig_index\<close> and every later chunk
  starts at or after the lines consumed by every earlier one. That is so in particular
  when no line of the patch is the end-of-file marker.
\<close>

theorem text_to_patch_chunks_monotone:
  assumes "text_to_patch nfc text orig = Some (Inr (patch, fuzz))"
    and "(path, action) \<in> set patch" and "type action = UPDATE"
  shows "(\<exists>content pindex f p' f'.
            orig path = Some content \<and>
            parse_update_file nfc (split_nl (trim text)) pindex f content =
            Some (Inr (action\<lparr>move_path := None\<rparr>, p', f'))) \<and>
         (\<forall>content pindex f p' f'.
            parse_update_file nfc (split_nl (trim text)) pindex f content =
            Some (Inr (action\<lparr>move_path := None\<rparr>, p', f')) \<and>
            (\<forall>n. eof_hunks_in_place n nfc (split_nl (trim text)) (split_nl content) pindex 0) \<longrightarrow>
            chunks_monotone (chunks action)) \<and>
         (END_OF_FILE_PREFIX \<notin> set (split_nl (trim text)) \<longrightarrow> chunks_monotone (chunks action))"
proof -
  let ?lines = "split_nl (trim text)"
  obtain i where p: "parse nfc orig ?lines 1 [] 0 = Some (Inr (i, patch, fuzz))"
    using assms(1)
    by (auto simp: text_to_patch_def Let_def split: if_splits option.splits sum.splits)
  have "list_all (entry_read nfc orig ?lines) patch"
    using parse_entries [OF p] by simp
  then have "entry_read nfc orig ?lines (path, action)"
    using assms(2) by (auto simp: list_all_iff)
  then have ex: "\<exists>content pindex f p' f'.
            orig path = Some content \<and>
            parse_update_file nfc ?lines pindex f content =
            Some (Inr (action\<lparr>move_path := None\<rparr>, p', f'))"
    using assms(3) by (simp add: entry_read_def)
  have place: "chunks_monotone (chunks action)"
    if "parse_update_file nfc ?lines pindex f content =
        Some (Inr (action\<lparr>move_path := None\<rparr>, p', f'))"
      and "\<forall>n. eof_hunks_in_place n nfc ?lines (split_nl content) pindex 0"
    for content pindex f p' f'
    using parse_update_file_in_place [OF that] by simp
  have noeof: "chunks_monotone (chunks action)" if "END_OF_FILE_PREFIX \<notin> set ?lines"
    using ex place eof_hunks_in_place_no_eof [OF that] by blast
  show ?thesis using ex place noeof by blast
qed

section \<open>Evaluation on concrete patches, and the remaining properties of the parser\<close>

lemmas model_eval =
  text_to_patch_def parse.simps parse_step_def parse_update_file_def update_loop.simps
  update_step_def parse_add_file_def has_action_def in_files_def OBJECT_PROTOTYPE_KEYS_def
  section_start_def
  add_loop.simps peek_next_section_def peek_loop.simps section_line_def section_break_def
  pending_chunk_def is_done_def read_str_def line_at_def startsWith_def ascii_def
  ADD_FILE_PREFIX_def DELETE_FILE_PREFIX_def UPDATE_FILE_PREFIX_def MOVE_FILE_TO_PREFIX_def
  PATCH_PREFIX_def PATCH_SUFFIX_def END_OF_FILE_PREFIX_def HUNK_ADD_LINE_PREFIX_def
  find_context_def find_context_core_def first_index.simps slice_def canon_def
  punct_def PUNCT_EQUIV_def trim_def trimEnd_def trimStart_def is_space_def Let_def

theorem text_to_patch_chunks_monotone_counterexample:
  "text_to_patch (\<lambda>s. s)
     (ascii ''*** Begin Patch\<newline>*** Update File: f\<newline>@@\<newline> b\<newline>-c\<newline>@@\<newline>-a\<newline> b\<newline> c\<newline>*** EOF\<newline>*** End Patch'')
     [ascii ''f'' \<mapsto> ascii ''a\<newline>b\<newline>c''] =
   Some (Inr ([(ascii ''f'',
      \<lparr>type = UPDATE, new_file = None,
       chunks = [\<lparr>orig_index = 2, del_lines = [ascii ''c''], ins_lines = []\<rparr>,
                 \<lparr>orig_index = 0, del_lines = [ascii ''a''], ins_lines = []\<rparr>],
       move_path = None\<rparr>)], 0)) \<and>
   \<not> chunks_monotone [\<lparr>orig_index = 2, del_lines = [ascii ''c''], ins_lines = []\<rparr>,
                       \<lparr>orig_index = 0, del_lines = [ascii ''a''], ins_lines = []\<rparr>]"
  by (simp add: model_eval chunks_monotone_def)

theorem text_to_patch_chunks_monotone_witness:
  "text_to_patch (\<lambda>s. s)
     (ascii ''*** Begin Patch\<newline>*** Update File: f\<newline>@@\<newline>-a\<newline> b\<newline>@@\<newline> c\<newline>-d\<newline>*** EOF\<newline>*** End Patch'')
     [ascii ''f'' \<mapsto> ascii ''a\<newline>b\<newline>c\<newline>d''] =
   Some (Inr ([(ascii ''f'',
      \<lparr>type = UPDATE, new_file = None,
       chunks = [\<lparr>orig_index = 0, del_lines = [ascii ''a''], ins_lines = []\<rparr>,
                 \<lparr>orig_index = 3, del_lines = [ascii ''d''], ins_lines = []\<rparr>],
       move_path = None\<rparr>)], 0)) \<and>
   END_OF_FILE_PREFIX \<in> set (split_nl (trim (ascii ''*** Begin Patch\<newline>*** Update File: f\<newline>@@\<newline>-a\<newline> b\<newline>@@\<newline> c\<newline>-d\<newline>*** EOF\<newline>*** End Patch''))) \<and>
   chunks_monotone [\<lparr>orig_index = 0, del_lines = [ascii ''a''], ins_lines = []\<rparr>,
                    \<lparr>orig_index = 3, del_lines = [ascii ''d''], ins_lines = []\<rparr>]"
proof -
  let ?text = "ascii ''*** Begin Patch\<newline>*** Update File: f\<newline>@@\<newline>-a\<newline> b\<newline>@@\<newline> c\<newline>-d\<newline>*** EOF\<newline>*** End Patch''"
  let ?content = "ascii ''a\<newline>b\<newline>c\<newline>d''"
  let ?orig = "[ascii ''f'' \<mapsto> ?content]"
  let ?a = "\<lparr>type = UPDATE, new_file = None,
       chunks = [\<lparr>orig_index = 0, del_lines = [ascii ''a''], ins_lines = []\<rparr>,
                 \<lparr>orig_index = 3, del_lines = [ascii ''d''], ins_lines = []\<rparr>],
       move_path = None\<rparr>"
  have r: "text_to_patch (\<lambda>s. s) ?text ?orig = Some (Inr ([(ascii ''f'', ?a)], 0))"
    by (simp add: model_eval)
  have e: "END_OF_FILE_PREFIX \<in> set (split_nl (trim ?text))"
    by (simp add: model_eval)
  have m: "(ascii ''f'', ?a) \<in> set [(ascii ''f'', ?a)]" by simp
  have t: "type ?a = UPDATE" by simp
  have pu: "parse_update_file (\<lambda>s. s) (split_nl (trim ?text)) 2 0 ?content =
            Some (Inr (?a\<lparr>move_path := None\<rparr>, 9, 0))"
    by (simp add: model_eval)
  have h2: "eof_hunks_in_place n (\<lambda>s. s) (split_nl (trim ?text)) (split_nl ?content) 9 4" for n
    by (rule eof_hunks_in_place_done) (simp add: model_eval)
  have h1: "eof_hunks_in_place n (\<lambda>s. s) (split_nl (trim ?text)) (split_nl ?content) 5 2" for n
  proof (cases n)
    case 0
    then show ?thesis by simp
  next
    case (Suc k)
    have "eof_hunks_in_place (Suc k) (\<lambda>s. s) (split_nl (trim ?text)) (split_nl ?content) 5 2 =
          eof_hunks_in_place k (\<lambda>s. s) (split_nl (trim ?text)) (split_nl ?content) 9 4"
      by (simp add: model_eval)
    then show ?thesis using h2 Suc by simp
  qed
  have h0: "eof_hunks_in_place n (\<lambda>s. s) (split_nl (trim ?text)) (split_nl ?content) 2 0" for n
  proof (cases n)
    case 0
    then show ?thesis by simp
  next
    case (Suc k)
    have "eof_hunks_in_place (Suc k) (\<lambda>s. s) (split_nl (trim ?text)) (split_nl ?content) 2 0 =
          eof_hunks_in_place k (\<lambda>s. s) (split_nl (trim ?text)) (split_nl ?content) 5 2"
      by (simp add: model_eval)
    then show ?thesis using h1 Suc by simp
  qed
  have "chunks_monotone (chunks ?a)"
    using text_to_patch_chunks_monotone [OF r m t, THEN conjunct2, THEN conjunct1, rule_format,
        OF conjI [OF pu allI [OF h0]]] .
  then show ?thesis using r e by simp
qed

lemma trim_PATCH_PREFIX: "trim PATCH_PREFIX = ascii ''*** Begin Patch''"
  by (simp add: model_eval)

lemma trim_PATCH_SUFFIX: "trim PATCH_SUFFIX = ascii ''*** End Patch''"
  by (simp add: model_eval)

lemma split_nl_not_Nil: "split_nl s \<noteq> []"
  by (induction s) (auto split: list.splits)

lemma read_str_error: "read_str lines i p = Inl e \<Longrightarrow> e = IndexPastEnd i (length lines)"
  by (auto simp: read_str_def split: if_splits)

lemma peek_loop_error: "peek_loop lines i st = Inl e \<Longrightarrow> \<exists>s. e = InvalidSectionLine s"
proof (induction lines i st rule: peek_loop.induct)
  case (1 lines index st)
  then show ?case
    by (auto simp: peek_loop.simps [of lines index st] split: if_splits)
qed

lemma peek_next_section_error:
  "peek_next_section lines i = Inl e \<Longrightarrow> \<exists>s. e = InvalidSectionLine s"
  by (auto simp: peek_next_section_def Let_def split: sum.splits if_splits
      dest: peek_loop_error)

lemma update_step_error:
  assumes "update_step nfc lines fileLines pindex index acc fuzz = Inl e"
  shows "e \<noteq> InvalidPatchText r"
proof (cases "read_str lines pindex (ascii ''@@ '')")
  case (Inl e')
  then show ?thesis using assms read_str_error [OF Inl] by (auto simp: update_step_def)
next
  case (Inr dp)
  obtain defStr p1 where dp: "dp = (defStr, p1)" by (cases dp)
  define p2 where "p2 = (if defStr = [] \<and> line_at lines p1 = Some (ascii ''@@'') then p1 + 1 else p1)"
  show ?thesis
  proof (cases "peek_next_section lines p2")
    case pkl: (Inl e')
    then show ?thesis
      using assms peek_next_section_error [OF pkl] unfolding p2_def
      by (auto simp: update_step_def Inr dp Let_def split: if_splits)
  next
    case pkr: (Inr res)
    obtain ctx chs en eof where res: "res = (ctx, chs, en, eof)" by (cases res)
    obtain ni fz where fc: "find_context nfc fileLines ctx index eof = (ni, fz)"
      by (cases "find_context nfc fileLines ctx index eof")
    show ?thesis
      using assms pkr fc unfolding p2_def res
      by (auto simp: update_step_def Inr dp Let_def split: if_splits)
  qed
qed

lemma update_loop_error:
  assumes "update_loop nfc lines fileLines pindex index acc fuzz = Some res"
  shows "res \<noteq> Inl (InvalidPatchText r)"
proof (rule update_loop.raw_induct
    [where P = "\<lambda>nfc lines fileLines pindex index acc fuzz res.
       res \<noteq> Inl (InvalidPatchText r)", OF _ assms], goal_cases)
  case (1 update_loop nfc lines fileLines pindex index acc fuzz res)
  note IH = "1"(1) and hyps = "1"(2)
  show ?case
  proof (cases "is_done lines pindex
           [PATCH_SUFFIX, UPDATE_FILE_PREFIX, DELETE_FILE_PREFIX, ADD_FILE_PREFIX,
            END_OF_FILE_PREFIX]")
    case True
    then show ?thesis using hyps by auto
  next
    case False
    show ?thesis
    proof (cases "update_step nfc lines fileLines pindex index acc fuzz")
      case (Inl e)
      then show ?thesis using hyps False update_step_error [OF Inl] by auto
    next
      case (Inr st)
      then show ?thesis using hyps False IH by (auto split: prod.splits)
    qed
  qed
qed

lemma add_loop_error: "add_loop lines i acc = Inl e \<Longrightarrow> e \<noteq> InvalidPatchText r"
proof (induction lines i acc rule: add_loop.induct)
  case (1 lines pindex acc)
  show ?case
  proof (cases "is_done lines pindex
           [PATCH_SUFFIX, UPDATE_FILE_PREFIX, DELETE_FILE_PREFIX, ADD_FILE_PREFIX]")
    case True
    then show ?thesis using "1.prems" by (simp add: add_loop.simps [of lines pindex acc])
  next
    case False
    show ?thesis
    proof (cases "read_str lines pindex []")
      case (Inl e')
      then show ?thesis
        using "1.prems" False read_str_error [OF Inl]
        by (auto simp: add_loop.simps [of lines pindex acc])
    next
      case (Inr sp)
      obtain s p1 where sp: "sp = (s, p1)" by (cases sp)
      show ?thesis
      proof (cases "startsWith s HUNK_ADD_LINE_PREFIX")
        case sw: True
        have "add_loop lines p1 (acc @ [drop 1 s]) = Inl e"
          using "1.prems" False Inr sp sw by (simp add: add_loop.simps [of lines pindex acc])
        then show ?thesis using "1.IH" [OF False Inr [unfolded sp] refl] sw by simp
      next
        case nsw: False
        then show ?thesis
          using "1.prems" False Inr sp by (auto simp: add_loop.simps [of lines pindex acc])
      qed
    qed
  qed
qed

lemma parse_step_error:
  assumes "parse_step nfc current_files lines index patch fuzz = Some (Inl e)"
  shows "e \<noteq> InvalidPatchText r"
proof -
  have pu: "parse_update_file nfc lines i f t \<noteq> Some (Inl (InvalidPatchText r))" for i f t
    using update_loop_error [of nfc lines "split_nl t" i 0 "[]" f _ r]
    by (auto simp: parse_update_file_def split: option.splits sum.splits)
  have pa: "parse_add_file lines i \<noteq> Inl (InvalidPatchText r)" for i
    using add_loop_error [of lines i "[]" _ r]
    by (auto simp: parse_add_file_def split: sum.splits)
  show ?thesis
  proof (cases "read_str lines index UPDATE_FILE_PREFIX")
    case (Inl e')
    then show ?thesis using assms read_str_error [OF Inl] by (auto simp: parse_step_def)
  next
    case r1: (Inr pi)
    obtain path i1 where pi: "pi = (path, i1)" by (cases pi)
    show ?thesis
    proof (cases "path = []")
      case False
      show ?thesis
      proof (cases "read_str lines i1 MOVE_FILE_TO_PREFIX")
        case (Inl e')
        then show ?thesis using assms False read_str_error [OF Inl]
          by (auto simp: parse_step_def r1 pi split: if_splits)
      next
        case r2: (Inr mi)
        obtain moveTo i2 where mi: "mi = (moveTo, i2)" by (cases mi)
        show ?thesis
          using assms False pu
          by (auto simp: parse_step_def r1 pi r2 mi split: if_splits option.splits sum.splits)
      qed
    next
      case True
      show ?thesis
      proof (cases "read_str lines i1 DELETE_FILE_PREFIX")
        case (Inl e')
        then show ?thesis using assms True read_str_error [OF Inl]
          by (auto simp: parse_step_def r1 pi)
      next
        case r2: (Inr pi2)
        obtain path2 i2 where pi2: "pi2 = (path2, i2)" by (cases pi2)
        show ?thesis
        proof (cases "path2 = []")
          case False
          then show ?thesis using assms True
            by (auto simp: parse_step_def r1 pi r2 pi2 split: if_splits)
        next
          case p2: True
          show ?thesis
          proof (cases "read_str lines i2 ADD_FILE_PREFIX")
            case (Inl e')
            then show ?thesis using assms True p2 read_str_error [OF Inl]
              by (auto simp: parse_step_def r1 pi r2 pi2)
          next
            case r3: (Inr pi3)
            obtain path3 i3 where pi3: "pi3 = (path3, i3)" by (cases pi3)
            show ?thesis using assms True p2 pa
              by (auto simp: parse_step_def r1 pi r2 pi2 r3 pi3 split: if_splits sum.splits)
          qed
        qed
      qed
    qed
  qed
qed

lemma parse_error:
  assumes "parse nfc current_files lines index patch fuzz = Some res"
  shows "res \<noteq> Inl (InvalidPatchText r)"
proof (rule parse.raw_induct
    [where P = "\<lambda>nfc current_files lines index patch fuzz res.
       res \<noteq> Inl (InvalidPatchText r)", OF _ assms], goal_cases)
  case (1 parse nfc current_files lines index patch fuzz res)
  note IH = "1"(1) and hyps = "1"(2)
  show ?case
  proof (cases "is_done lines index [PATCH_SUFFIX]")
    case True
    then show ?thesis using hyps by (auto split: option.splits if_splits)
  next
    case False
    show ?thesis
    proof (cases "parse_step nfc current_files lines index patch fuzz")
      case None
      then show ?thesis using hyps False by simp
    next
      case (Some st)
      show ?thesis
      proof (cases st)
        case (Inl e)
        then show ?thesis using hyps False Some parse_step_error [of nfc current_files lines index patch fuzz e r]
          by auto
      next
        case (Inr t)
        then show ?thesis using hyps False Some IH by (auto split: prod.splits)
      qed
    qed
  qed
qed

text \<open>
  Claim C5, as amended. \<open>text_to_patch\<close> fails at once, with the message naming the
  first violated condition, unless the trimmed input has at least two lines, its first
  line starts with the begin-patch marker and its last line equals the end-patch
  marker; when the three conditions hold, it never fails with that error.
\<close>

theorem text_to_patch_envelope:
  "(length (split_nl (trim text)) < 2 \<longrightarrow>
      text_to_patch nfc text orig = Some (Inl (InvalidPatchText AtLeastTwoLines))) \<and>
   (2 \<le> length (split_nl (trim text)) \<and>
    \<not> startsWith (split_nl (trim text) ! 0) (ascii ''*** Begin Patch'') \<longrightarrow>
      text_to_patch nfc text orig = Some (Inl (InvalidPatchText CorrectPrefix))) \<and>
   (2 \<le> length (split_nl (trim text)) \<and>
    startsWith (split_nl (trim text) ! 0) (ascii ''*** Begin Patch'') \<and>
    last (split_nl (trim text)) \<noteq> ascii ''*** End Patch'' \<longrightarrow>
      text_to_patch nfc text orig = Some (Inl (InvalidPatchText CorrectSuffix))) \<and>
   (2 \<le> length (split_nl (trim text)) \<and>
    startsWith (split_nl (trim text) ! 0) (ascii ''*** Begin Patch'') \<and>
    last (split_nl (trim text)) = ascii ''*** End Patch'' \<longrightarrow>
      text_to_patch nfc text orig \<noteq> Some (Inl (InvalidPatchText r)))"
proof -
  let ?lines = "split_nl (trim text)"
  have l: "?lines ! (length ?lines - 1) = last ?lines"
    using split_nl_not_Nil [of "trim text"] by (simp add: last_conv_nth)
  have ok: "text_to_patch nfc text orig \<noteq> Some (Inl (InvalidPatchText r))"
    if "2 \<le> length ?lines" "startsWith (?lines ! 0) (ascii ''*** Begin Patch'')"
      "last ?lines = ascii ''*** End Patch''"
  proof -
    have "text_to_patch nfc text orig =
          (case parse nfc orig ?lines 1 [] 0 of
             None \<Rightarrow> None
           | Some (Inl e) \<Rightarrow> Some (Inl e)
           | Some (Inr (index, patch, fuzz)) \<Rightarrow> Some (Inr (patch, fuzz)))"
      using that l by (simp add: text_to_patch_def Let_def trim_PATCH_PREFIX trim_PATCH_SUFFIX)
    then show ?thesis
      using parse_error [of nfc orig ?lines 1 "[]" 0 _ r]
      by (auto split: option.splits sum.splits)
  qed
  show ?thesis
    using ok l
    by (simp add: text_to_patch_def Let_def trim_PATCH_PREFIX trim_PATCH_SUFFIX)
qed

theorem text_to_patch_envelope_counterexample:
  "text_to_patch (\<lambda>s. s) (ascii ''*** Begin Patch extra\<newline>*** End Patch'') Map.empty =
     Some (Inr ([], 0)) \<and>
   split_nl (trim (ascii ''*** Begin Patch extra\<newline>*** End Patch'')) ! 0 \<noteq>
     ascii ''*** Begin Patch''"
  by (simp add: model_eval)

theorem text_to_patch_envelope_witness:
  "text_to_patch (\<lambda>s. s) (ascii ''x'') Map.empty =
     Some (Inl (InvalidPatchText AtLeastTwoLines)) \<and>
   text_to_patch (\<lambda>s. s) (ascii ''x\<newline>*** End Patch'') Map.empty =
     Some (Inl (InvalidPatchText CorrectPrefix)) \<and>
   text_to_patch (\<lambda>s. s) (ascii ''*** Begin Patch\<newline>x'') Map.empty =
     Some (Inl (InvalidPatchText CorrectSuffix)) \<and>
   text_to_patch (\<lambda>s. s) (ascii ''*** Begin Patch extra\<newline>*** End Patch'') Map.empty \<noteq>
     Some (Inl (InvalidPatchText CorrectPrefix))"
proof -
  have a: "length (split_nl (trim (ascii ''x''))) < 2"
    by (simp add: model_eval)
  have b: "2 \<le> length (split_nl (trim (ascii ''x\<newline>*** End Patch''))) \<and>
           \<not> startsWith (split_nl (trim (ascii ''x\<newline>*** End Patch'')) ! 0)
               (ascii ''*** Begin Patch'')"
    by (simp add: model_eval)
  have c: "2 \<le> length (split_nl (trim (ascii ''*** Begin Patch\<newline>x''))) \<and>
           startsWith (split_nl (trim (ascii ''*** Begin Patch\<newline>x'')) ! 0)
             (ascii ''*** Begin Patch'') \<and>
           last (split_nl (trim (ascii ''*** Begin Patch\<newline>x''))) \<noteq> ascii ''*** End Patch''"
    by (simp add: model_eval)
  have d: "2 \<le> length (split_nl (trim (ascii ''*** Begin Patch extra\<newline>*** End Patch''))) \<and>
           startsWith (split_nl (trim (ascii ''*** Begin Patch extra\<newline>*** End Patch'')) ! 0)
             (ascii ''*** Begin Patch'') \<and>
           last (split_nl (trim (ascii ''*** Begin Patch extra\<newline>*** End Patch''))) =
             ascii ''*** End Patch''"
    by (simp add: model_eval)
  note T = text_to_patch_envelope
  show ?thesis
    using T [THEN conjunct1, rule_format, OF a]
      T [THEN conjunct2, THEN conjunct1, rule_format, OF b]
      T [THEN conjunct2, THEN conjunct2, THEN conjunct1, rule_format, OF c]
      T [THEN conjunct2, THEN conjunct2, THEN conjunct2, rule_format, OF d]
    by (intro conjI)
qed

lemma parse_extends:
  assumes "parse nfc current_files lines index patch fuzz = Some res"
  shows "\<forall>i' patch' f'. res = Inr (i', patch', f') \<longrightarrow> (\<exists>ext. patch' = patch @ ext)"
proof (rule parse.raw_induct
    [where P = "\<lambda>nfc current_files lines index patch fuzz res.
       \<forall>i' patch' f'. res = Inr (i', patch', f') \<longrightarrow> (\<exists>ext. patch' = patch @ ext)",
     OF _ assms], goal_cases)
  case (1 parse nfc current_files lines index patch fuzz res)
  note IH = "1"(1) and hyps = "1"(2)
  show ?case
  proof (intro allI impI)
    fix i' patch' f'
    assume r: "res = Inr (i', patch', f')"
    show "\<exists>ext. patch' = patch @ ext"
    proof (cases "is_done lines index [PATCH_SUFFIX]")
      case True
      then have "patch' = patch" using hyps r by (auto split: option.splits if_splits)
      then show ?thesis by simp
    next
      case False
      then obtain i1 p1 f1 where
        st: "parse_step nfc current_files lines index patch fuzz = Some (Inr (i1, p1, f1))"
        and rc: "parse nfc current_files lines i1 p1 f1 = Some res"
        using hyps r by (auto split: option.splits sum.splits)
      obtain e1 where "p1 = patch @ e1" using parse_step_Inr [OF st] by blast
      moreover obtain e2 where "patch' = p1 @ e2" using IH [OF rc] r by blast
      ultimately show ?thesis by simp
    qed
  qed
qed

lemma update_header_not_done:
  "\<not> startsWith (UPDATE_FILE_PREFIX @ path) (trim PATCH_SUFFIX)"
  by (simp add: trim_PATCH_SUFFIX startsWith_def UPDATE_FILE_PREFIX_def ascii_def)

lemma read_str_prefix:
  assumes "i < length lines" and "lines ! i = p @ t"
  shows "read_str lines i p = Inr (t, Suc i)"
  using assms by (simp add: read_str_def startsWith_def)

text \<open>
  Claim C6, as amended. Let the parser be at an Update header that is immediately
  followed by a line \<open>*** Move File to: newpath\<close>. When the path is not yet in the
  patch and does not name a member of \<open>Object.prototype\<close>, the file is among the
  originals and the hunks that follow the move header parse, the parse goes on after the
  hunks with the Update action recorded for the path, its \<open>move_path\<close> set to
  \<open>newpath\<close>. And whenever the parse succeeds, that is how it went: the action
  recorded for the path in the result is the Update action of the hunks read from the
  line after the move header, with \<open>move_path\<close> set to \<open>newpath\<close>.
\<close>

theorem parse_move_header:
  assumes "index + 1 < length lines"
    and "lines ! index = UPDATE_FILE_PREFIX @ path" and "path \<noteq> []"
    and "lines ! (index + 1) = MOVE_FILE_TO_PREFIX @ newpath" and "newpath \<noteq> []"
  shows "(\<forall>content action i3 f3.
            \<not> has_action patch path \<and> current_files path = Some content \<and>
            parse_update_file nfc lines (index + 2) fuzz content = Some (Inr (action, i3, f3)) \<longrightarrow>
            parse nfc current_files lines index patch fuzz =
            parse nfc current_files lines i3
              (patch @ [(path, action\<lparr>move_path := Some newpath\<rparr>)]) f3) \<and>
         (\<forall>index' patch' fuzz'.
            parse nfc current_files lines index patch fuzz = Some (Inr (index', patch', fuzz')) \<longrightarrow>
            (\<exists>content action i3 f3.
               \<not> has_action patch path \<and>
               current_files path = Some content \<and>
               parse_update_file nfc lines (index + 2) fuzz content =
               Some (Inr (action, i3, f3)) \<and>
               type action = UPDATE \<and>
               map_of patch' path = Some (action\<lparr>move_path := Some newpath\<rparr>)))"
proof (intro conjI allI impI)
  have nd: "\<not> is_done lines index [PATCH_SUFFIX]"
    using assms(1,2) update_header_not_done by (simp add: is_done_def)
  have r1: "read_str lines index UPDATE_FILE_PREFIX = Inr (path, Suc index)"
    using assms(1,2) by (intro read_str_prefix) simp_all
  have r2: "read_str lines (Suc index) MOVE_FILE_TO_PREFIX = Inr (newpath, Suc (Suc index))"
    using assms(1,4) by (intro read_str_prefix) simp_all
  have two: "index + 2 = Suc (Suc index)" by simp
  {
    fix content action i3 f3
    assume h: "\<not> has_action patch path \<and> current_files path = Some content \<and>
            parse_update_file nfc lines (index + 2) fuzz content = Some (Inr (action, i3, f3))"
    have "parse_step nfc current_files lines index patch fuzz =
          Some (Inr (i3, patch @ [(path, action\<lparr>move_path := Some newpath\<rparr>)], f3))"
      using h assms(3,5) unfolding two by (simp add: parse_step_def r1 r2 in_files_def)
    then show "parse nfc current_files lines index patch fuzz =
            parse nfc current_files lines i3
              (patch @ [(path, action\<lparr>move_path := Some newpath\<rparr>)]) f3"
      using nd by (subst parse.simps) simp
  next
    fix index' patch' fuzz'
    assume ok: "parse nfc current_files lines index patch fuzz = Some (Inr (index', patch', fuzz'))"
    obtain i1 p1 f1 where
      st: "parse_step nfc current_files lines index patch fuzz = Some (Inr (i1, p1, f1))"
      and rc: "parse nfc current_files lines i1 p1 f1 = Some (Inr (index', patch', fuzz'))"
      using ok nd
      by (subst (asm) parse.simps) (auto split: option.splits sum.splits)
    have na: "\<not> has_action patch path"
      using st assms(3) by (simp add: parse_step_def r1 split: if_splits)
    then have np: "map_of patch path = None" by (simp add: has_action_def)
    have inf: "in_files current_files path"
      using st assms(3) na by (simp add: parse_step_def r1 r2 split: if_splits)
    obtain content where cf: "current_files path = Some content"
      using st assms(3) na inf
      by (cases "current_files path") (auto simp: parse_step_def r1 r2)
    obtain action where
      pu: "parse_update_file nfc lines (Suc (Suc index)) fuzz content = Some (Inr (action, i1, f1))"
      and p1: "p1 = patch @ [(path, action\<lparr>move_path := Some newpath\<rparr>)]"
      using st assms(3,5) na inf
      by (auto simp: parse_step_def r1 r2 cf split: option.splits sum.splits)
    have ty: "type action = UPDATE"
      using pu by (auto simp: parse_update_file_def split: option.splits sum.splits)
    obtain ext where "patch' = p1 @ ext" using parse_extends [OF rc] by blast
    then have "map_of patch' path = Some (action\<lparr>move_path := Some newpath\<rparr>)"
      using p1 np by (simp add: map_add_def)
    then show "\<exists>content action i3 f3.
               \<not> has_action patch path \<and>
               current_files path = Some content \<and>
               parse_update_file nfc lines (index + 2) fuzz content =
               Some (Inr (action, i3, f3)) \<and>
               type action = UPDATE \<and>
               map_of patch' path = Some (action\<lparr>move_path := Some newpath\<rparr>)"
      using cf pu ty na unfolding two by blast
  }
qed

text \<open>
  A path that names a member of \<open>Object.prototype\<close> is taken for a path already in
  the patch, also by the first header of a patch.
\<close>

lemma prototype_member_path:
  "text_to_patch nfc
     (ascii ''*** Begin Patch\<newline>*** Update File: constructor\<newline>*** Move File to: g\<newline>@@\<newline> a\<newline>*** End Patch'')
     orig =
   Some (Inl (UpdateDuplicatePath (ascii ''constructor'')))"
  by (simp add: model_eval)

theorem parse_move_header_counterexample:
  "text_to_patch (\<lambda>s. s)
     (ascii ''*** Begin Patch\<newline>*** Update File: f\<newline>*** Move to: g\<newline>@@\<newline> a\<newline>-b\<newline>*** End Patch'')
     [ascii ''f'' \<mapsto> ascii ''a\<newline>b''] =
   Some (Inl (InvalidSectionLine (ascii ''*** Move to: g'')))"
  by (simp add: model_eval)

theorem parse_move_header_witness:
  "parse (\<lambda>s. s) [ascii ''f'' \<mapsto> ascii ''a\<newline>b'']
     (split_nl (ascii ''*** Begin Patch\<newline>*** Update File: f\<newline>*** Move File to: g\<newline>@@\<newline> a\<newline>-b\<newline>*** End Patch''))
     1 [] 0 =
   Some (Inr (7, [(ascii ''f'',
      \<lparr>type = UPDATE, new_file = None,
       chunks = [\<lparr>orig_index = 1, del_lines = [ascii ''b''], ins_lines = []\<rparr>],
       move_path = Some (ascii ''g'')\<rparr>)], 0)) \<and>
   (\<exists>content action i3 f3.
      \<not> has_action [] (ascii ''f'') \<and>
      [ascii ''f'' \<mapsto> ascii ''a\<newline>b''] (ascii ''f'') = Some content \<and>
      parse_update_file (\<lambda>s. s)
        (split_nl (ascii ''*** Begin Patch\<newline>*** Update File: f\<newline>*** Move File to: g\<newline>@@\<newline> a\<newline>-b\<newline>*** End Patch''))
        (1 + 2) 0 content = Some (Inr (action, i3, f3)) \<and>
      type action = UPDATE \<and>
      map_of [(ascii ''f'',
        \<lparr>type = UPDATE, new_file = None,
         chunks = [\<lparr>orig_index = 1, del_lines = [ascii ''b''], ins_lines = []\<rparr>],
         move_path = Some (ascii ''g'')\<rparr>)] (ascii ''f'') =
      Some (action\<lparr>move_path := Some (ascii ''g'')\<rparr>))"
proof -
  let ?lines = "split_nl (ascii ''*** Begin Patch\<newline>*** Update File: f\<newline>*** Move File to: g\<newline>@@\<newline> a\<newline>-b\<newline>*** End Patch'')"
  let ?files = "[ascii ''f'' \<mapsto> ascii ''a\<newline>b'']"
  let ?patch = "[(ascii ''f'',
      \<lparr>type = UPDATE, new_file = None,
       chunks = [\<lparr>orig_index = 1, del_lines = [ascii ''b''], ins_lines = []\<rparr>],
       move_path = Some (ascii ''g'')\<rparr>)]"
  have p: "parse (\<lambda>s. s) ?files ?lines 1 [] 0 = Some (Inr (7, ?patch, 0))"
    by (simp add: model_eval)
  have h1: "1 + 1 < length ?lines" by (simp add: model_eval)
  have h2: "?lines ! 1 = UPDATE_FILE_PREFIX @ ascii ''f''" by (simp add: model_eval)
  have h3: "ascii ''f'' \<noteq> []" by (simp add: ascii_def)
  have h4: "?lines ! (1 + 1) = MOVE_FILE_TO_PREFIX @ ascii ''g''" by (simp add: model_eval)
  have h5: "ascii ''g'' \<noteq> []" by (simp add: ascii_def)
  show ?thesis
    using p parse_move_header [OF h1 h2 h3 h4 h5, THEN conjunct2, rule_format, OF p]
    by (intro conjI)
qed

text \<open>
  Claim C10. \<open>process_patch\<close> rejects with the error "Patch must start with *** Begin
  Patch" followed by a line feed every text that does not start with the begin-patch
  marker and a line feed, whatever the injected functions are and leaving the outside
  world as it was; a text with a leading space and a text whose first line carries
  more characters are rejected so although \<open>text_to_patch\<close> accepts both.
\<close>

theorem process_patch_prefix:
  "(\<not> startsWith text PATCH_PREFIX \<longrightarrow>
      process_patch nfc text openFn writeFn removeFn w = Some (Inl PatchMustStart, w)) \<and>
   text_to_patch nfc (ascii '' *** Begin Patch\<newline>*** End Patch'') orig = Some (Inr ([], 0)) \<and>
   process_patch nfc (ascii '' *** Begin Patch\<newline>*** End Patch'') openFn writeFn removeFn w =
     Some (Inl PatchMustStart, w) \<and>
   text_to_patch nfc (ascii ''*** Begin Patch extra\<newline>*** End Patch'') orig =
     Some (Inr ([], 0)) \<and>
   process_patch nfc (ascii ''*** Begin Patch extra\<newline>*** End Patch'') openFn writeFn removeFn w =
     Some (Inl PatchMustStart, w)"
proof -
  have a: "\<not> startsWith text PATCH_PREFIX \<longrightarrow>
      process_patch nfc text openFn writeFn removeFn w = Some (Inl PatchMustStart, w)"
    by (simp add: process_patch_def)
  have b: "text_to_patch nfc (ascii '' *** Begin Patch\<newline>*** End Patch'') orig =
           Some (Inr ([], 0))"
    by (simp add: model_eval)
  have c: "process_patch nfc (ascii '' *** Begin Patch\<newline>*** End Patch'') openFn writeFn removeFn w =
     Some (Inl PatchMustStart, w)"
    by (simp add: process_patch_def startsWith_def PATCH_PREFIX_def ascii_def)
  have d: "text_to_patch nfc (ascii ''*** Begin Patch extra\<newline>*** End Patch'') orig =
     Some (Inr ([], 0))"
    by (simp add: model_eval)
  have e: "process_patch nfc (ascii ''*** Begin Patch extra\<newline>*** End Patch'') openFn writeFn removeFn w =
     Some (Inl PatchMustStart, w)"
    by (simp add: process_patch_def startsWith_def PATCH_PREFIX_def ascii_def)
  show ?thesis using a b c d e by (intro conjI)
qed

theorem process_patch_prefix_witness:
  "\<not> startsWith (ascii ''*** Begin Patch'') PATCH_PREFIX \<and>
   process_patch (\<lambda>s. s) (ascii ''*** Begin Patch'')
     (\<lambda>p w. (None, p # w)) (\<lambda>p c w. (None, p # w)) (\<lambda>p w. (None, p # w)) [] =
   Some (Inl PatchMustStart, [])"
proof -
  have h: "\<not> startsWith (ascii ''*** Begin Patch'') PATCH_PREFIX"
    by (simp add: startsWith_def PATCH_PREFIX_def ascii_def)
  show ?thesis
    using h process_patch_prefix [THEN conjunct1, rule_format, OF h] by (intro conjI)
qed

section \<open>A patch on which the parser does not return\<close>

text \<open>
  The first section of an Update may begin without a section marker. When its first line
  starts with \<open>@@\<close> but is neither \<open>@@\<close> nor \<open>@@\<close> followed by a space, no line is
  consumed, the empty context matches at the running position 0, and the loop of
  \<open>parse_update_file\<close> starts again in the same state.
\<close>

lemma update_step_stuck:
  "update_step nfc
     [ascii ''*** Begin Patch'', ascii ''*** Update File: f'', ascii ''@@foo'',
      ascii ''*** End Patch'']
     fileLines 2 0 acc fuzz = Inr (2, 0, acc, fuzz)"
  by (simp add: model_eval)

lemma update_loop_diverges:
  "update_loop nfc
     [ascii ''*** Begin Patch'', ascii ''*** Update File: f'', ascii ''@@foo'',
      ascii ''*** End Patch'']
     fileLines 2 0 acc fuzz = None"
proof (rule ccontr)
  let ?L = "[ascii ''*** Begin Patch'', ascii ''*** Update File: f'', ascii ''@@foo'',
             ascii ''*** End Patch'']"
  assume "update_loop nfc ?L fileLines 2 0 acc fuzz \<noteq> None"
  then obtain r where r: "update_loop nfc ?L fileLines 2 0 acc fuzz = Some r" by auto
  have nd: "\<not> is_done ?L 2
           [PATCH_SUFFIX, UPDATE_FILE_PREFIX, DELETE_FILE_PREFIX, ADD_FILE_PREFIX,
            END_OF_FILE_PREFIX]"
    by (simp add: model_eval)
  have "?L = ?L \<and> (2 :: nat) = 2 \<and> (0 :: int) = 0 \<longrightarrow> False"
  proof (rule update_loop.raw_induct
      [where P = "\<lambda>nfc lines fileLines pindex index acc fuzz r.
         lines = ?L \<and> pindex = 2 \<and> index = 0 \<longrightarrow> False", OF _ r], goal_cases)
    case (1 update_loop nfc lines fileLines pindex index acc fuzz r)
    note IH = "1"(1) and hyps = "1"(2)
    show ?case
    proof
      assume a: "lines = ?L \<and> pindex = 2 \<and> index = 0"
      have "update_loop nfc ?L fileLines 2 0 acc fuzz = Some r"
        using hyps a nd by (simp add: update_step_stuck)
      then show False using IH by blast
    qed
  qed
  then show False by simp
qed

lemma text_to_patch_diverges:
  "text_to_patch nfc
     (ascii ''*** Begin Patch\<newline>*** Update File: f\<newline>@@foo\<newline>*** End Patch'')
     [ascii ''f'' \<mapsto> content] = None"
proof -
  have l: "split_nl (trim (ascii ''*** Begin Patch\<newline>*** Update File: f\<newline>@@foo\<newline>*** End Patch'')) =
        [ascii ''*** Begin Patch'', ascii ''*** Update File: f'', ascii ''@@foo'',
         ascii ''*** End Patch'']"
    by (simp add: model_eval)
  have pu: "parse_update_file nfc
        [ascii ''*** Begin Patch'', ascii ''*** Update File: f'', ascii ''@@foo'',
         ascii ''*** End Patch''] (Suc (Suc 0)) 0 content = None"
    using update_loop_diverges [of nfc "split_nl content" "[]" 0]
    by (simp add: parse_update_file_def numeral_2_eq_2)
  have ps: "parse_step nfc [ascii ''f'' \<mapsto> content]
        [ascii ''*** Begin Patch'', ascii ''*** Update File: f'', ascii ''@@foo'',
         ascii ''*** End Patch''] 1 [] 0 = None"
    using pu
    by (simp add: parse_step_def read_str_def startsWith_def ascii_def UPDATE_FILE_PREFIX_def
        MOVE_FILE_TO_PREFIX_def has_action_def in_files_def OBJECT_PROTOTYPE_KEYS_def)
  have nd: "\<not> is_done [ascii ''*** Begin Patch'', ascii ''*** Update File: f'', ascii ''@@foo'',
         ascii ''*** End Patch''] 1 [PATCH_SUFFIX]"
    by (simp add: model_eval)
  have "parse nfc [ascii ''f'' \<mapsto> content]
        [ascii ''*** Begin Patch'', ascii ''*** Update File: f'', ascii ''@@foo'',
         ascii ''*** End Patch''] 1 [] 0 = None"
    using nd ps by (subst parse.simps) simp
  then show ?thesis
    unfolding text_to_patch_def l
    by (simp add: Let_def trim_PATCH_PREFIX trim_PATCH_SUFFIX startsWith_def ascii_def)
qed

end
